theory Spec2Isabelle
  imports Main "HOL-Library.Sublist" "HOL-Library.AList"
begin

section \<open>Text\<close>

text \<open>
  A Python \<^verbatim>\<open>str\<close> is modelled as a \<^typ>\<open>string\<close>, one \<^typ>\<open>char\<close> per code point
  (code points below 256). \<^verbatim>\<open>str.strip()\<close> and the regular expression classes
  \<^verbatim>\<open>\s\<close> and \<^verbatim>\<open>\S\<close> share one notion of whitespace: the code points 9 to 13, 28 to 32,
  133 and 160.
\<close>

definition is_space :: "char \<Rightarrow> bool" where
  "is_space c =
     (let n = (of_char c :: nat)
      in (9 \<le> n \<and> n \<le> 13) \<or> (28 \<le> n \<and> n \<le> 32) \<or> n = 133 \<or> n = 160)"

definition strip :: "string \<Rightarrow> string" where
  "strip s = rev (dropWhile is_space (rev (dropWhile is_space s)))"

text \<open>\<^verbatim>\<open>"Traceback" in error_message\<close>: the executor's failure marker.\<close>

definition has_traceback :: "string \<Rightarrow> bool" where
  "has_traceback error_message = sublist ''Traceback'' error_message"

section \<open>Response parser\<close>

text \<open>
  \<^verbatim>\<open>_extract_code_from_llm_response\<close> runs
  \<^verbatim>\<open>re.findall(r"#\s(\S+)\n```python\n(.*?)\n```", llm_response, re.DOTALL)\<close>
  and builds a dict from the matches. The pattern has no alternation, so a match attempt
  at one position is a fixed sequence of steps: the character \<^verbatim>\<open>#\<close>, one whitespace
  character, a greedy run of non-whitespace characters (the filename; only the maximal
  run can be followed by the newline that the pattern asks for next), the literal
  header, then the shortest text up to the first closing fence.
\<close>

definition block_header :: string where
  "block_header = ''\<newline>```python\<newline>''"

definition fence :: string where
  "fence = ''\<newline>```''"

text \<open>The lazy group \<^verbatim>\<open>(.*?)\<close> followed by the closing fence: the text before the first
  fence, and the text after it.\<close>

fun lazy_until_fence :: "string \<Rightarrow> (string \<times> string) option" where
  "lazy_until_fence [] = None"
| "lazy_until_fence (c # cs) =
     (if prefix fence (c # cs) then Some ([], drop (length fence) (c # cs))
      else map_option (\<lambda>(code, rest). (c # code, rest)) (lazy_until_fence cs))"

text \<open>One match attempt at the start of the text: the two groups and the text that
  follows the match.\<close>

definition match_block_at :: "string \<Rightarrow> ((string \<times> string) \<times> string) option" where
  "match_block_at s =
     (case s of
        h # w # s1 \<Rightarrow>
          if h = CHR ''#'' \<and> is_space w then
            let filename = takeWhile (\<lambda>c. \<not> is_space c) s1;
                s2 = dropWhile (\<lambda>c. \<not> is_space c) s1
            in if filename \<noteq> [] \<and> prefix block_header s2 then
                 (case lazy_until_fence (drop (length block_header) s2) of
                    Some (code, rest) \<Rightarrow> Some ((filename, code), rest)
                  | None \<Rightarrow> None)
               else None
          else None
      | _ \<Rightarrow> None)"

lemma lazy_until_fence_length:
  "lazy_until_fence s = Some (code, rest) \<Longrightarrow> length rest < length s"
proof (induction s arbitrary: code)
  case Nil
  then show ?case by simp
next
  case (Cons c cs)
  show ?case
  proof (cases "prefix fence (c # cs)")
    case True
    with Cons.prems show ?thesis by (auto simp: fence_def)
  next
    case False
    with Cons.prems obtain code' where "lazy_until_fence cs = Some (code', rest)"
      by (auto split: prod.splits)
    from Cons.IH [OF this] show ?thesis by simp
  qed
qed

lemma match_block_at_length:
  assumes "match_block_at s = Some (m, rest)"
  shows "length rest < length s"
proof -
  from assms obtain h w s1 code where s: "s = h # w # s1"
    and l: "lazy_until_fence (drop (length block_header) (dropWhile (\<lambda>c. \<not> is_space c) s1))
              = Some (code, rest)"
    by (auto simp: match_block_at_def Let_def split: list.splits if_splits option.splits)
  have "length rest < length (drop (length block_header) (dropWhile (\<lambda>c. \<not> is_space c) s1))"
    by (rule lazy_until_fence_length [OF l])
  also have "\<dots> \<le> length (dropWhile (\<lambda>c. \<not> is_space c) s1)"
    by simp
  also have "\<dots> \<le> length s1"
    by (rule length_dropWhile_le)
  finally show ?thesis using s by simp
qed

text \<open>\<^verbatim>\<open>re.findall\<close>: scan from the left; after a match the scan resumes behind it,
  otherwise one character further.\<close>

function findall_blocks :: "string \<Rightarrow> (string \<times> string) list" where
  "findall_blocks [] = []"
| "findall_blocks (c # cs) =
     (case match_block_at (c # cs) of
        Some (m, rest) \<Rightarrow> m # findall_blocks rest
      | None \<Rightarrow> findall_blocks cs)"
  by pat_completeness auto
termination
  by (relation "measure length") (auto dest: match_block_at_length)

text \<open>The dict comprehension \<^verbatim>\<open>{filename: code.strip() for filename, code in matches}\<close>.
  A Python dict keeps its keys in the order of first insertion and overwrites the value
  of a key that is already there, which is what \<^const>\<open>AList.update\<close> does on an
  association list.\<close>

definition extract_code_from_llm_response :: "string \<Rightarrow> (string \<times> string) list" where
  "extract_code_from_llm_response llm_response =
     foldl (\<lambda>d (filename, code). AList.update filename (strip code) d) []
       (findall_blocks llm_response)"

section \<open>The environment of a session\<close>

text \<open>
  The collaborators of the controller are outside the repository: the interpreter that
  runs a target file, the language model, the search page, the page fetcher, the listing
  of the project directory and \<^verbatim>\<open>difflib.Differ\<close>. They are the fields of an \<^emph>\<open>environment\<close>.
  All but the last take the time of the call (a counter that every external call
  advances), so that none of them is assumed to answer the same question twice in the
  same way.

  The operating system is part of the environment too. A file has a \<^emph>\<open>location\<close> (its place
  in the directory tree), and the disk maps locations to what the files hold: a text, or
  bytes that do not decode as text. \<open>open_file e m filename\<close> is what
  \<^verbatim>\<open>open(os.path.join(code_dir, filename), m)\<close> finds: the location that the joined path
  denotes, whether or not a file is there yet, or the exception of the operating system
  (a directory of the path is missing, the path names a directory, access is refused).
  Several names may denote one location (\<^verbatim>\<open>a.py\<close>, \<^verbatim>\<open>./a.py\<close>, an absolute path, a link).
  The directories and the access rights do not change during a session, running a target
  file does not write to the disk, and writing to a file that has been opened succeeds.
  The two-second pause between attempts is not modelled.
\<close>

type_synonym location = "string list"

datatype file_content = Text string | Undecodable

type_synonym disk = "location \<rightharpoonup> file_content"

datatype mode = ReadMode | WriteMode

datatype error =
    FileNotFoundError string
  | IsADirectoryError string
  | NotADirectoryError string
  | PermissionError string
  | UnicodeDecodeError string
  | OSError string
  | AttributeError
  | ModelError

datatype completed_process =
    Completed string
  | CalledProcessError string

datatype system_prompt = SYSTEM_PROMPT | QUERY_SYSTEM_PROMPT

datatype log_record =
    Attempt int
  | SameErrorDetected int
  | GeneratedQuery string
  | ErrorFetching string
  | MadeChanges string
  | NoChanges
  | ErrorStillExists
  | AllErrorsFixed
  | MaximumAttemptReached

record env =
  open_file :: "mode \<Rightarrow> string \<Rightarrow> error + location"
  subprocess_run :: "nat \<Rightarrow> disk \<Rightarrow> string \<Rightarrow> completed_process"
  generate_response :: "nat \<Rightarrow> string \<Rightarrow> system_prompt \<Rightarrow> string option"
  async_fetch :: "nat \<Rightarrow> string \<Rightarrow> string list option"
  fetcher_get :: "nat \<Rightarrow> string \<Rightarrow> string option"
  directory_tree :: "nat \<Rightarrow> disk \<Rightarrow> string"
  differ_compare :: "string list \<Rightarrow> string list \<Rightarrow> string list"

record world =
  files :: disk
  clock :: nat
  logged :: "log_record list"

text \<open>The fields of \<^verbatim>\<open>CodeDebugger\<close>. The fields \<^verbatim>\<open>code_dir\<close> and \<^verbatim>\<open>llm\<close> do not change and
  are in the environment: its functions take the name of a file as the code has it,
  before \<^verbatim>\<open>os.path.join(self.code_dir, ...)\<close>.\<close>

record debugger =
  max_attempts :: int
  files_to_debug :: "string list"
  enable_internet_search :: bool
  num_search_urls :: int
  internet_search_threshold :: int
  attempt_count :: int
  constant_error_count :: int
  last_error_signature :: string

text \<open>\<^verbatim>\<open>__init__\<close>; \<open>listdir\<close> is the result of \<^verbatim>\<open>os.listdir(code_dir)\<close>, read when no file
  is passed (\<^verbatim>\<open>None\<close> or an empty list).\<close>

definition get_all_python_files :: "string list \<Rightarrow> string list" where
  "get_all_python_files listdir = filter (suffix ''.py'') listdir"

definition init ::
  "string list \<Rightarrow> int \<Rightarrow> string list option \<Rightarrow> bool \<Rightarrow> int \<Rightarrow> int \<Rightarrow> debugger" where
  "init listdir max_attempts' files_to_debug' enable_internet_search' num_search_urls'
     internet_search_threshold' =
     \<lparr>max_attempts = max_attempts',
      files_to_debug =
        (case files_to_debug' of
           None \<Rightarrow> get_all_python_files listdir
         | Some fs \<Rightarrow> if fs = [] then get_all_python_files listdir else fs),
      enable_internet_search = enable_internet_search',
      num_search_urls = num_search_urls',
      internet_search_threshold = internet_search_threshold',
      attempt_count = 0,
      constant_error_count = 0,
      last_error_signature = []\<rparr>"

definition tick :: "world \<Rightarrow> world" where
  "tick w = w\<lparr>clock := Suc (clock w)\<rparr>"

definition logging :: "log_record \<Rightarrow> world \<Rightarrow> world" where
  "logging r w = w\<lparr>logged := logged w @ [r]\<rparr>"

text \<open>\<^verbatim>\<open>_run_subprocess_and_capture_output\<close>: the standard output of a run that exits
  with 0, the standard error of one that does not, stripped.\<close>

definition run_subprocess_and_capture_output :: "env \<Rightarrow> string \<Rightarrow> world \<Rightarrow> string \<times> world" where
  "run_subprocess_and_capture_output e code_filename w =
     (case subprocess_run e (clock w) (files w) code_filename of
        Completed stdout \<Rightarrow> (strip stdout, tick w)
      | CalledProcessError stderr \<Rightarrow> (strip stderr, tick w))"

text \<open>\<^verbatim>\<open>open(path, "r").read()\<close>: the exception of the operating system, a missing file
  and bytes that do not decode raise; text mode turns \<^verbatim>\<open>\r\n\<close> and \<^verbatim>\<open>\r\<close> into \<^verbatim>\<open>\n\<close>.\<close>

fun universal_newlines :: "string \<Rightarrow> string" where
  "universal_newlines [] = []"
| "universal_newlines [c] = (if c = CHR 0x0D then [CHR 0x0A] else [c])"
| "universal_newlines (c # d # cs) =
     (if c = CHR 0x0D then
        (if d = CHR 0x0A then CHR 0x0A # universal_newlines cs
         else CHR 0x0A # universal_newlines (d # cs))
      else c # universal_newlines (d # cs))"

definition read_text :: "env \<Rightarrow> disk \<Rightarrow> string \<Rightarrow> error + string" where
  "read_text e fs filename =
     (case open_file e ReadMode filename of
        Inl err \<Rightarrow> Inl err
      | Inr loc \<Rightarrow>
          (case fs loc of
             None \<Rightarrow> Inl (FileNotFoundError filename)
           | Some Undecodable \<Rightarrow> Inl (UnicodeDecodeError filename)
           | Some (Text content) \<Rightarrow> Inr (universal_newlines content)))"

section \<open>Prompt assembler\<close>

fun all_code_of :: "env \<Rightarrow> disk \<Rightarrow> string list \<Rightarrow> string \<Rightarrow> error + string" where
  "all_code_of e fs [] all_code = Inr all_code"
| "all_code_of e fs (code_filename # rest) all_code =
     (case read_text e fs code_filename of
        Inl err \<Rightarrow> Inl err
      | Inr code \<Rightarrow>
          all_code_of e fs rest
            (all_code @ ''# '' @ code_filename @ ''\<newline>'' @ code @ ''\<newline>''
               @ ''_________________\<newline>\<newline>''))"

fun all_errors_of :: "env \<Rightarrow> string list \<Rightarrow> string \<Rightarrow> world \<Rightarrow> string \<times> world" where
  "all_errors_of e [] all_errors w = (all_errors, w)"
| "all_errors_of e (code_filename # rest) all_errors w =
     (case run_subprocess_and_capture_output e code_filename w of
        (error_message, w') \<Rightarrow>
          if has_traceback error_message then
            all_errors_of e rest
              (all_errors @ ''# '' @ code_filename @ ''\<newline>'' @ error_message
                 @ ''\<newline>_________________\<newline>\<newline>'') w'
          else
            all_errors_of e rest
              (all_errors @ ''# '' @ code_filename
                 @ '' has no error.\<newline>_________________\<newline>\<newline>'') w')"

definition indent8 :: string where
  "indent8 = ''        ''"

definition indent12 :: string where
  "indent12 = ''            ''"

text \<open>\<^verbatim>\<open>_construct_prompt_for_llm\<close>: the tree, then the sources (a target file that
  cannot be read raises), then one run of every target file.\<close>

definition construct_prompt_for_llm ::
  "env \<Rightarrow> debugger \<Rightarrow> string \<Rightarrow> world \<Rightarrow> (error + string) \<times> world" where
  "construct_prompt_for_llm e self internet_content w =
     (let tree = directory_tree e (clock w) (files w);
          w1 = tick w;
          file_structure_prompt =
            ''\<newline>'' @ indent8 @ ''The file structure of the project is as follows:\<newline>''
              @ indent8 @ tree @ ''\<newline>'' @ indent8
      in case all_code_of e (files w1) (files_to_debug self) [] of
           Inl err \<Rightarrow> (Inl err, w1)
         | Inr all_code \<Rightarrow>
             (case all_errors_of e (files_to_debug self) [] w1 of
                (all_errors, w2) \<Rightarrow>
                  if internet_content \<noteq> [] then
                    (Inr (''\<newline>'' @ indent12 @ ''### INTERNET INFO\<newline>''
                          @ indent12 @ internet_content @ ''\<newline>\<newline>''
                          @ indent12 @ replicate 55 (CHR ''_'') @ ''\<newline>\<newline>''
                          @ indent12 @ file_structure_prompt @ ''\<newline>''
                          @ indent12 @ all_code @ ''\<newline>''
                          @ indent12 @ ''error:\<newline>''
                          @ indent12 @ all_errors @ ''\<newline>'' @ indent12), w2)
                  else
                    (Inr (''\<newline>'' @ indent12 @ file_structure_prompt @ ''\<newline>''
                          @ indent12 @ all_code @ ''\<newline>''
                          @ indent12 @ ''error:\<newline>''
                          @ indent12 @ all_errors @ ''\<newline>'' @ indent12), w2)))"

definition guide_prompt :: string where
  "guide_prompt = ''I have code3.py that is giving me an error. Can you fix it?''"

section \<open>Research escalator\<close>

text \<open>\<^verbatim>\<open>re.search(r'search_query: "(.*?)"', llm_response)\<close>, without \<^verbatim>\<open>DOTALL\<close>: the first
  place where the literal is followed, before any newline, by a closing quote.\<close>

definition query_literal :: string where
  "query_literal = ''search_query: '' @ [CHR 0x22]"

definition match_query_at :: "string \<Rightarrow> string option" where
  "match_query_at s =
     (if prefix query_literal s then
        (let s1 = drop (length query_literal) s;
             stop = (\<lambda>c. c = CHR 0x22 \<or> c = CHR 0x0A)
         in case dropWhile (\<lambda>c. \<not> stop c) s1 of
              [] \<Rightarrow> None
            | c # _ \<Rightarrow> if c = CHR 0x22 then Some (takeWhile (\<lambda>c. \<not> stop c) s1) else None)
      else None)"

fun search_query_in :: "string \<Rightarrow> string option" where
  "search_query_in [] = None"
| "search_query_in (c # cs) =
     (case match_query_at (c # cs) of
        Some q \<Rightarrow> Some q
      | None \<Rightarrow> search_query_in cs)"

text \<open>\<^verbatim>\<open>_generate_search_query_for_google\<close>: \<^verbatim>\<open>.group(1)\<close> on a failed search raises
  \<^verbatim>\<open>AttributeError\<close>.\<close>

definition generate_search_query_for_google ::
  "env \<Rightarrow> debugger \<Rightarrow> world \<Rightarrow> (error + string) \<times> world" where
  "generate_search_query_for_google e self w =
     (case construct_prompt_for_llm e self [] w of
        (Inl err, w1) \<Rightarrow> (Inl err, w1)
      | (Inr full_prompt_error, w1) \<Rightarrow>
          (case generate_response e (clock w1) full_prompt_error QUERY_SYSTEM_PROMPT of
             None \<Rightarrow> (Inl ModelError, tick w1)
           | Some llm_response \<Rightarrow>
               (case search_query_in llm_response of
                  None \<Rightarrow> (Inl AttributeError, tick w1)
                | Some search_query \<Rightarrow> (Inr search_query, tick w1))))"

text \<open>\<^verbatim>\<open>internet_search\<close>: an exception of the fetch is caught and the function returns
  \<^verbatim>\<open>None\<close>; otherwise the links that start with \<^verbatim>\<open>https\<close>.\<close>

definition internet_search :: "env \<Rightarrow> string \<Rightarrow> world \<Rightarrow> string list option \<times> world" where
  "internet_search e search_query w =
     (let quoted = [CHR 0x22] @ search_query @ [CHR 0x22];
          search_url = ''https://www.google.com/search?q='' @ quoted
      in case async_fetch e (clock w) search_url of
           None \<Rightarrow> (None, tick w)
         | Some first_url \<Rightarrow> (Some (filter (prefix ''https'') first_url), tick w))"

text \<open>The slice \<^verbatim>\<open>urls[:num_urls]\<close>; a negative bound counts from the end.\<close>

definition slice_to :: "int \<Rightarrow> 'a list \<Rightarrow> 'a list" where
  "slice_to n xs = (if 0 \<le> n then take (nat n) xs else take (length xs - nat (- n)) xs)"

fun fetch_pages :: "env \<Rightarrow> string list \<Rightarrow> string \<Rightarrow> world \<Rightarrow> string \<times> world" where
  "fetch_pages e [] combined_content w = (combined_content, w)"
| "fetch_pages e (url # urls) combined_content w =
     (case fetcher_get e (clock w) url of
        Some content \<Rightarrow>
          fetch_pages e urls
            (combined_content @ ''### CONTENT FROM: '' @ url @ ''\<newline>'' @ content
               @ ''\<newline>\<newline>'') (tick w)
      | None \<Rightarrow> fetch_pages e urls combined_content (logging (ErrorFetching url) (tick w)))"

definition fetch_internet_content ::
  "env \<Rightarrow> debugger \<Rightarrow> string \<Rightarrow> int \<Rightarrow> world \<Rightarrow> string \<times> world" where
  "fetch_internet_content e self search_query num_urls w =
     (if \<not> enable_internet_search self then ([], w)
      else case internet_search e search_query w of
             (None, w1) \<Rightarrow> ([], w1)
           | (Some urls, w1) \<Rightarrow>
               if urls = [] then ([], w1) else fetch_pages e (slice_to num_urls urls) [] w1)"

section \<open>Change applier\<close>

text \<open>\<^verbatim>\<open>str.splitlines()\<close>: the line boundaries below 256 are the code points 10 to 13,
  28 to 30 and 133; \<^verbatim>\<open>\r\n\<close> is one boundary, and a final boundary opens no empty line.\<close>

definition is_linebreak :: "char \<Rightarrow> bool" where
  "is_linebreak c =
     (let n = (of_char c :: nat)
      in (10 \<le> n \<and> n \<le> 13) \<or> (28 \<le> n \<and> n \<le> 30) \<or> n = 133)"

fun splitlines_from :: "string \<Rightarrow> string \<Rightarrow> string list" where
  "splitlines_from line [] = (if line = [] then [] else [line])"
| "splitlines_from line [c] = (if is_linebreak c then [line] else [line @ [c]])"
| "splitlines_from line (c # d # cs) =
     (if c = CHR 0x0D \<and> d = CHR 0x0A then line # splitlines_from [] cs
      else if is_linebreak c then line # splitlines_from [] (d # cs)
      else splitlines_from (line @ [c]) (d # cs))"

definition splitlines :: "string \<Rightarrow> string list" where
  "splitlines s = splitlines_from [] s"

text \<open>\<^verbatim>\<open>get_diff\<close> (utils.py): of the lines that \<^verbatim>\<open>Differ.compare\<close> yields, those that
  start with \<^verbatim>\<open>"- "\<close> or \<^verbatim>\<open>"+ "\<close> are kept, reformatted.\<close>

definition diff_line :: "string \<Rightarrow> string list" where
  "diff_line line =
     (if prefix ''  '' line then []
      else if prefix ''- '' line then [''  - '' @ strip (drop 2 line) @ ''\<newline>'']
      else if prefix ''+ '' line then [''  + '' @ strip (drop 2 line) @ ''\<newline>'']
      else [])"

definition get_diff :: "env \<Rightarrow> string list \<Rightarrow> string list \<Rightarrow> string list" where
  "get_diff e old_lines new_lines = concat (map diff_line (differ_compare e old_lines new_lines))"

text \<open>The loop of \<^verbatim>\<open>debug\<close> that reads every file of the Code Change Set before the
  update; the dict \<^verbatim>\<open>code_before_change\<close> is the accumulator.\<close>

fun code_before_change_of ::
  "env \<Rightarrow> disk \<Rightarrow> (string \<times> string) list \<Rightarrow> (string \<times> string) list \<Rightarrow>
     error + (string \<times> string) list" where
  "code_before_change_of e fs [] code_before_change = Inr code_before_change"
| "code_before_change_of e fs ((filename, new_code) # rest) code_before_change =
     (case read_text e fs filename of
        Inl err \<Rightarrow> Inl err
      | Inr old_code \<Rightarrow>
          code_before_change_of e fs rest (AList.update filename old_code code_before_change))"

text \<open>\<^verbatim>\<open>_update_code_files\<close>: \<^verbatim>\<open>open(path, "w")\<close> creates the file at the location of the
  path or truncates it, and \<^verbatim>\<open>file.write(code)\<close> leaves the text there. An exception of
  \<^verbatim>\<open>open\<close> ends the loop; the files written before it stay written.\<close>

fun update_code_files :: "env \<Rightarrow> (string \<times> string) list \<Rightarrow> disk \<Rightarrow> error option \<times> disk" where
  "update_code_files e [] fs = (None, fs)"
| "update_code_files e ((filename, code) # rest) fs =
     (case open_file e WriteMode filename of
        Inl err \<Rightarrow> (Some err, fs)
      | Inr loc \<Rightarrow> update_code_files e rest (fs(loc \<mapsto> Text code)))"

text \<open>The change summary: one entry (the file and its diff lines) for every file of the
  Code Change Set whose old text is known and differs from the new one after stripping;
  the summary text is the entries, each under its \<^verbatim>\<open>File:\<close> line.\<close>

fun change_entries ::
  "env \<Rightarrow> (string \<times> string) list \<Rightarrow> (string \<times> string) list \<Rightarrow> (string \<times> string list) list" where
  "change_entries e code_before_change [] = []"
| "change_entries e code_before_change ((filename, new_code) # rest) =
     (case map_of code_before_change filename of
        Some old_code \<Rightarrow>
          if strip old_code \<noteq> strip new_code then
            (filename, get_diff e (splitlines old_code) (splitlines new_code))
              # change_entries e code_before_change rest
          else change_entries e code_before_change rest
      | None \<Rightarrow> change_entries e code_before_change rest)"

definition change_summary_of :: "(string \<times> string list) list \<Rightarrow> string" where
  "change_summary_of entries =
     concat (map (\<lambda>(filename, diff). ''\<newline>File: '' @ filename @ ''\<newline>'' @ concat diff) entries)"

text \<open>The apply step of an attempt: read the old texts, write the new ones, log the
  summary. It returns the entries of the summary.\<close>

definition apply_code_changes ::
  "env \<Rightarrow> (string \<times> string) list \<Rightarrow> world \<Rightarrow> (error + (string \<times> string list) list) \<times> world" where
  "apply_code_changes e code_changes w =
     (case code_before_change_of e (files w) code_changes [] of
        Inl err \<Rightarrow> (Inl err, w)
      | Inr code_before_change \<Rightarrow>
          (case update_code_files e code_changes (files w) of
             (Some err, fs) \<Rightarrow> (Inl err, w\<lparr>files := fs\<rparr>)
           | (None, fs) \<Rightarrow>
               (let entries = change_entries e code_before_change code_changes;
                    change_summary = change_summary_of entries
                in (Inr entries,
                    logging (if change_summary \<noteq> [] then MadeChanges change_summary
                             else NoChanges)
                      (w\<lparr>files := fs\<rparr>)))))"

section \<open>Failure signature tracker\<close>

text \<open>The first loop of an attempt: the outputs that carry the failure marker,
  concatenated in the order of the target set.\<close>

fun current_error_signature_of :: "env \<Rightarrow> string list \<Rightarrow> string \<Rightarrow> world \<Rightarrow> string \<times> world" where
  "current_error_signature_of e [] current_error_signature w = (current_error_signature, w)"
| "current_error_signature_of e (code_filename # rest) current_error_signature w =
     (case run_subprocess_and_capture_output e code_filename w of
        (error_message, w') \<Rightarrow>
          current_error_signature_of e rest
            (if has_traceback error_message then current_error_signature @ error_message
             else current_error_signature) w')"

definition update_error_signature :: "string \<Rightarrow> debugger \<Rightarrow> debugger" where
  "update_error_signature current_error_signature self =
     (if current_error_signature = last_error_signature self \<and> current_error_signature \<noteq> [] then
        self\<lparr>constant_error_count := constant_error_count self + 1\<rparr>
      else
        self\<lparr>constant_error_count := 0, last_error_signature := current_error_signature\<rparr>)"

text \<open>The tracker as a whole: the lines of an attempt from the first loop to the update
  of the two fields.\<close>

definition track_failure_signature :: "env \<Rightarrow> debugger \<Rightarrow> world \<Rightarrow> debugger \<times> world" where
  "track_failure_signature e self w =
     (case current_error_signature_of e (files_to_debug self) [] w of
        (current_error_signature, w1) \<Rightarrow>
          (update_error_signature current_error_signature self, w1))"

definition escalation_due :: "debugger \<Rightarrow> bool" where
  "escalation_due self \<longleftrightarrow>
     enable_internet_search self \<and> internet_search_threshold self \<le> constant_error_count self"

section \<open>Repair loop controller\<close>

text \<open>\<^verbatim>\<open>_check_for_errors\<close> returns at the first target file that fails.\<close>

fun check_for_errors :: "env \<Rightarrow> string list \<Rightarrow> world \<Rightarrow> bool \<times> world" where
  "check_for_errors e [] w = (False, w)"
| "check_for_errors e (code_filename # rest) w =
     (case run_subprocess_and_capture_output e code_filename w of
        (error_message, w') \<Rightarrow>
          if has_traceback error_message then (True, w') else check_for_errors e rest w')"

text \<open>The branch of an attempt that builds the prompt. The counter is reset once the
  escalation has built its prompt; an exception leaves it as it was.\<close>

definition prompt_with_error ::
  "env \<Rightarrow> debugger \<Rightarrow> world \<Rightarrow> (error + string) \<times> debugger \<times> world" where
  "prompt_with_error e self w =
     (if escalation_due self then
        (case generate_search_query_for_google e self
                (logging (SameErrorDetected (internet_search_threshold self)) w) of
           (Inl err, w1) \<Rightarrow> (Inl err, self, w1)
         | (Inr search_query, w1) \<Rightarrow>
             (case fetch_internet_content e self search_query (num_search_urls self)
                     (logging (GeneratedQuery search_query) w1) of
                (internet_content, w2) \<Rightarrow>
                  (case construct_prompt_for_llm e self internet_content w2 of
                     (Inl err, w3) \<Rightarrow> (Inl err, self, w3)
                   | (Inr full_prompt_with_error, w3) \<Rightarrow>
                       (Inr full_prompt_with_error, self\<lparr>constant_error_count := 0\<rparr>, w3))))
      else
        (case construct_prompt_for_llm e self [] w of
           (r, w1) \<Rightarrow> (r, self, w1)))"

text \<open>The rest of an attempt: the model's answer, the parse, the apply step and the
  re-check.\<close>

definition repair :: "env \<Rightarrow> debugger \<Rightarrow> string \<Rightarrow> world \<Rightarrow> (error + bool) \<times> world" where
  "repair e self full_prompt_with_error w =
     (case generate_response e (clock w) (full_prompt_with_error @ guide_prompt) SYSTEM_PROMPT of
        None \<Rightarrow> (Inl ModelError, tick w)
      | Some llm_response \<Rightarrow>
          (case apply_code_changes e (extract_code_from_llm_response llm_response) (tick w) of
             (Inl err, w1) \<Rightarrow> (Inl err, w1)
           | (Inr entries, w1) \<Rightarrow>
               (case check_for_errors e (files_to_debug self) w1 of
                  (error_exists, w2) \<Rightarrow>
                    (Inr error_exists,
                     logging (if error_exists then ErrorStillExists else AllErrorsFixed) w2))))"

text \<open>One pass through the body of the \<^verbatim>\<open>while\<close> loop.\<close>

definition attempt :: "env \<Rightarrow> debugger \<Rightarrow> world \<Rightarrow> (error + bool) \<times> debugger \<times> world" where
  "attempt e self w =
     (let self1 = self\<lparr>attempt_count := attempt_count self + 1\<rparr>
      in case track_failure_signature e self1 (logging (Attempt (attempt_count self1)) w) of
           (self2, w1) \<Rightarrow>
             (case prompt_with_error e self2 w1 of
                (Inl err, self3, w2) \<Rightarrow> (Inl err, self3, w2)
              | (Inr full_prompt_with_error, self3, w2) \<Rightarrow>
                  (case repair e self3 full_prompt_with_error w2 of
                     (r, w3) \<Rightarrow> (r, self3, w3))))"

lemma prompt_with_error_counts:
  "prompt_with_error e self w = (r, self', w') \<Longrightarrow>
     attempt_count self' = attempt_count self \<and> max_attempts self' = max_attempts self"
  by (auto simp: prompt_with_error_def split: if_splits prod.splits sum.splits)

lemma attempt_counts:
  "attempt e self w = (r, self', w') \<Longrightarrow>
     attempt_count self' = attempt_count self + 1 \<and> max_attempts self' = max_attempts self"
  by (auto simp: attempt_def Let_def track_failure_signature_def update_error_signature_def
           split: if_splits prod.splits sum.splits dest!: prompt_with_error_counts)

text \<open>The \<^verbatim>\<open>while\<close> loop of \<^verbatim>\<open>debug\<close>, and \<^verbatim>\<open>debug\<close> itself with its closing message. An
  exception ends the session where it is raised.\<close>

function debug_loop ::
  "env \<Rightarrow> bool \<Rightarrow> debugger \<Rightarrow> world \<Rightarrow> (error + unit) \<times> debugger \<times> world" where
  "debug_loop e error_exists self w =
     (if error_exists \<and> attempt_count self < max_attempts self then
        (case attempt e self w of
           (Inl err, self', w') \<Rightarrow> (Inl err, self', w')
         | (Inr error_exists', self', w') \<Rightarrow> debug_loop e error_exists' self' w')
      else (Inr (), self, w))"
  by pat_completeness auto
termination
  by (relation "measure (\<lambda>(e, error_exists, self, w). nat (max_attempts self - attempt_count self))")
     (auto dest!: attempt_counts [OF sym])

declare debug_loop.simps [simp del]

definition debug :: "env \<Rightarrow> debugger \<Rightarrow> world \<Rightarrow> (error + unit) \<times> debugger \<times> world" where
  "debug e self w =
     (case debug_loop e True self w of
        (Inl err, self', w') \<Rightarrow> (Inl err, self', w')
      | (Inr u, self', w') \<Rightarrow>
          (Inr u, self',
           if max_attempts self' \<le> attempt_count self' then logging MaximumAttemptReached w'
           else w'))"

section \<open>Reading a session\<close>

text \<open>An attempt that starts with the debugger \<open>self\<close> in the world \<open>w\<close> \<^emph>\<open>escalates\<close> when
  the condition of its research branch holds once the tracker has run.\<close>

definition escalates :: "env \<Rightarrow> debugger \<Rightarrow> world \<Rightarrow> bool" where
  "escalates e self w \<longleftrightarrow>
     escalation_due
       (fst (track_failure_signature e (self\<lparr>attempt_count := attempt_count self + 1\<rparr>)
               (logging (Attempt (attempt_count self + 1)) w)))"

text \<open>The records of the log that mark the course of a session: the start of an
  attempt, the start of an escalation, and the two closing messages
  (\<^verbatim>\<open>All errors fixed.\<close> reports success,
  \<^verbatim>\<open>Maximum attempt reached without fixing all errors.\<close> reports exhaustion).\<close>

fun milestone :: "log_record \<Rightarrow> bool" where
  "milestone (Attempt n) = True"
| "milestone (SameErrorDetected n) = True"
| "milestone AllErrorsFixed = True"
| "milestone MaximumAttemptReached = True"
| "milestone r = False"

definition milestones :: "world \<Rightarrow> log_record list" where
  "milestones w = filter milestone (logged w)"

text \<open>The numbers of the attempts that the log records, in order.\<close>

fun attempt_numbers :: "log_record list \<Rightarrow> int list" where
  "attempt_numbers [] = []"
| "attempt_numbers (Attempt n # rs) = n # attempt_numbers rs"
| "attempt_numbers (r # rs) = attempt_numbers rs"

text \<open>What the controller does to its fields in an attempt that completes, given the
  signature it computes.\<close>

definition after_attempt :: "string \<Rightarrow> debugger \<Rightarrow> debugger" where
  "after_attempt current_error_signature self =
     (let t = update_error_signature current_error_signature
                (self\<lparr>attempt_count := attempt_count self + 1\<rparr>)
      in if escalation_due t then t\<lparr>constant_error_count := 0\<rparr> else t)"

section \<open>The failure signature, in the words of the specification\<close>

text \<open>The outputs of one pass of the executor over the target set, in order; the
  failure text of an output (empty when the run did not fail); and the signature as the
  concatenation of the non-empty failure texts.\<close>

fun outputs_of :: "env \<Rightarrow> string list \<Rightarrow> world \<Rightarrow> string list" where
  "outputs_of e [] w = []"
| "outputs_of e (code_filename # rest) w =
     (case run_subprocess_and_capture_output e code_filename w of
        (error_message, w') \<Rightarrow> error_message # outputs_of e rest w')"

definition failure_text :: "string \<Rightarrow> string" where
  "failure_text error_message = (if has_traceback error_message then error_message else [])"

definition signature_in_words :: "string list \<Rightarrow> string" where
  "signature_in_words outputs = concat (filter (\<lambda>t. t \<noteq> []) (map failure_text outputs))"

section \<open>The grammar of a block, in the words of the specification\<close>

text \<open>A text \<^emph>\<open>contains a block\<close> when somewhere in it there is a filename line (the
  character \<^verbatim>\<open>#\<close>, one whitespace character, a filename without whitespace) followed by
  a fenced python code block.\<close>


definition contains_block :: "string \<Rightarrow> bool" where
  "contains_block s =
     (\<exists>pre w filename code post.
        s = pre @ CHR ''#'' # w # filename @ block_header @ code @ fence @ post \<and>
        is_space w \<and> filename \<noteq> [] \<and> (\<forall>c\<in>set filename. \<not> is_space c))"




section \<open>Concrete sessions\<close>

text \<open>An operating system for the sessions that are run below: no links, the working
  directory is the root, every directory that a path names exists and nothing is
  refused. \<^verbatim>\<open>os.path.join\<close> is that of POSIX; the location of a path is the list of its
  names once \<^verbatim>\<open>.\<close>, \<^verbatim>\<open>..\<close> and empty names are resolved. The project directory is
  \<^verbatim>\<open>proj\<close>.\<close>

definition path_join :: "string \<Rightarrow> string \<Rightarrow> string" where
  "path_join a b =
     (if prefix ''/'' b then b
      else if a = [] \<or> suffix ''/'' a then a @ b
      else a @ ''/'' @ b)"

fun split_path :: "string \<Rightarrow> string \<Rightarrow> string list" where
  "split_path name [] = [name]"
| "split_path name (c # cs) =
     (if c = CHR ''/'' then name # split_path [] cs else split_path (name @ [c]) cs)"

fun resolve_names :: "location \<Rightarrow> string list \<Rightarrow> location" where
  "resolve_names here [] = here"
| "resolve_names here (name # names) =
     (if name = [] \<or> name = ''.'' then resolve_names here names
      else if name = ''..'' then resolve_names (butlast here) names
      else resolve_names (here @ [name]) names)"

definition place_of :: "string \<Rightarrow> location" where
  "place_of filename = resolve_names [] (split_path [] (path_join ''proj'' filename))"

definition plain_open :: "mode \<Rightarrow> string \<Rightarrow> error + location" where
  "plain_open m filename = Inr (place_of filename)"

text \<open>The disk that holds the given texts under the given names of the project.\<close>

definition project :: "(string \<times> string) list \<Rightarrow> disk" where
  "project named = map_of (map (\<lambda>(filename, content). (place_of filename, Text content)) named)"

text \<open>Environments on which the definitions are run: a stand-in for
  \<^verbatim>\<open>Differ.compare\<close> that reports every old line as removed and every new line as added,
  an environment in which every run of every file fails with the same text and the
  model proposes nothing, and the world at the start of a session.\<close>

definition plain_compare :: "string list \<Rightarrow> string list \<Rightarrow> string list" where
  "plain_compare old_lines new_lines = map ((@) ''- '') old_lines @ map ((@) ''+ '') new_lines"

definition stuck_env :: env where
  "stuck_env =
     \<lparr>open_file = plain_open,
      subprocess_run = (\<lambda>t fs code_filename. CalledProcessError ''Traceback: boom''),
      generate_response =
        (\<lambda>t prompt sp.
           case sp of
             QUERY_SYSTEM_PROMPT \<Rightarrow> Some (query_literal @ ''boom'' @ [CHR 0x22])
           | SYSTEM_PROMPT \<Rightarrow> Some ''no fix''),
      async_fetch = (\<lambda>t url. Some []),
      fetcher_get = (\<lambda>t url. None),
      directory_tree = (\<lambda>t fs. []),
      differ_compare = plain_compare\<rparr>"

text \<open>An environment in which a file runs clean once it holds the text \<^verbatim>\<open>ok = 1\<close>, and the
  model proposes that text for \<^verbatim>\<open>a.py\<close>.\<close>

definition fixing_env :: env where
  "fixing_env =
     \<lparr>open_file = plain_open,
      subprocess_run =
        (\<lambda>t fs code_filename.
           if fs (place_of code_filename) = Some (Text ''ok = 1'') then Completed ''done''
           else CalledProcessError ''Traceback: boom''),
      generate_response =
        (\<lambda>t prompt sp.
           case sp of
             QUERY_SYSTEM_PROMPT \<Rightarrow> Some (query_literal @ ''boom'' @ [CHR 0x22])
           | SYSTEM_PROMPT \<Rightarrow> Some (''# a.py'' @ block_header @ ''ok = 1'' @ fence)),
      async_fetch = (\<lambda>t url. Some []),
      fetcher_get = (\<lambda>t url. None),
      directory_tree = (\<lambda>t fs. []),
      differ_compare = plain_compare\<rparr>"

text \<open>The environment of the stuck session, except that the model proposes a file
  \<^verbatim>\<open>b.py\<close>.\<close>

definition adding_env :: env where
  "adding_env =
     stuck_env\<lparr>generate_response :=
        (\<lambda>t prompt sp.
           case sp of
             QUERY_SYSTEM_PROMPT \<Rightarrow> Some (query_literal @ ''boom'' @ [CHR 0x22])
           | SYSTEM_PROMPT \<Rightarrow> Some (''# b.py'' @ block_header @ ''y = 1'' @ fence))\<rparr>"

definition start :: "disk \<Rightarrow> world" where
  "start fs = \<lparr>files = fs, clock = 0, logged = []\<rparr>"


text \<open>A debugger in the middle of a session, after the same failure has been seen twice.\<close>

definition stuck_twice :: debugger where
  "stuck_twice =
     (init [] 10 (Some [''a.py'']) True 5 5)
       \<lparr>attempt_count := 3, constant_error_count := 1, last_error_signature := ''Traceback: boom''\<rparr>"

text \<open>A debugger that has seen the same failure in its first two attempts, with the
  threshold at 2.\<close>

definition stuck_once :: debugger where
  "stuck_once =
     (init [] 3 (Some [''a.py'']) True 5 2)
       \<lparr>attempt_count := 2, constant_error_count := 1, last_error_signature := ''Traceback: boom''\<rparr>"

section \<open>Properties of the response parser\<close>

lemma lazy_until_fence_sound:
  "lazy_until_fence s = Some (code, rest) \<Longrightarrow> s = code @ fence @ rest"
proof (induction s arbitrary: code)
  case Nil
  then show ?case by simp
next
  case (Cons c cs)
  show ?case
  proof (cases "prefix fence (c # cs)")
    case True
    with Cons.prems show ?thesis by (auto simp: prefix_def)
  next
    case False
    with Cons.prems obtain code' where "lazy_until_fence cs = Some (code', rest)" "code = c # code'"
      by (auto split: prod.splits)
    with Cons.IH show ?thesis by simp
  qed
qed

lemma lazy_until_fence_complete:
  "lazy_until_fence (code @ fence @ post) \<noteq> None"
proof (induction code)
  case Nil
  then show ?case by (simp add: fence_def)
next
  case (Cons c code)
  then show ?case by auto
qed

lemma newline_is_space: "is_space CHR ''\<newline>''"
  by (simp add: is_space_def)

lemma match_block_at_sound:
  assumes "match_block_at s = Some ((filename, code), rest)"
  shows "\<exists>w. s = CHR ''#'' # w # filename @ block_header @ code @ fence @ rest \<and>
           is_space w \<and> filename \<noteq> [] \<and> (\<forall>c\<in>set filename. \<not> is_space c)"
proof -
  from assms obtain w s1 where s: "s = CHR ''#'' # w # s1" and w: "is_space w"
    and f: "filename = takeWhile (\<lambda>c. \<not> is_space c) s1" and ne: "filename \<noteq> []"
    and p: "prefix block_header (dropWhile (\<lambda>c. \<not> is_space c) s1)"
    and l: "lazy_until_fence (drop (length block_header) (dropWhile (\<lambda>c. \<not> is_space c) s1))
              = Some (code, rest)"
    by (auto simp: match_block_at_def Let_def split: list.splits if_splits option.splits)
  from p have "dropWhile (\<lambda>c. \<not> is_space c) s1
      = block_header @ drop (length block_header) (dropWhile (\<lambda>c. \<not> is_space c) s1)"
    by (auto simp: prefix_def)
  with lazy_until_fence_sound [OF l]
  have "dropWhile (\<lambda>c. \<not> is_space c) s1 = block_header @ code @ fence @ rest"
    by simp
  with f have "s1 = filename @ block_header @ code @ fence @ rest"
    by (metis takeWhile_dropWhile_id)
  moreover from f have "\<forall>c\<in>set filename. \<not> is_space c"
    by (auto dest: set_takeWhileD)
  ultimately show ?thesis using s w ne by blast
qed

lemma match_block_at_complete:
  assumes "is_space w" "filename \<noteq> []" "\<forall>c\<in>set filename. \<not> is_space c"
  shows "match_block_at (CHR ''#'' # w # filename @ block_header @ code @ fence @ post) \<noteq> None"
proof -
  have bh: "block_header = CHR ''\<newline>'' # tl block_header"
    by (simp add: block_header_def)
  let ?s1 = "filename @ block_header @ code @ fence @ post"
  have s1: "?s1 = filename @ CHR ''\<newline>'' # (tl block_header @ code @ fence @ post)"
    by (subst bh) simp
  have t: "takeWhile (\<lambda>c. \<not> is_space c) ?s1 = filename"
    unfolding s1 using assms(3) newline_is_space by (simp add: takeWhile_tail)
  have d: "dropWhile (\<lambda>c. \<not> is_space c) ?s1 = block_header @ code @ fence @ post"
    using takeWhile_dropWhile_id [of "\<lambda>c. \<not> is_space c" ?s1] unfolding t by simp
  from lazy_until_fence_complete [of code post]
  obtain c r where "lazy_until_fence (code @ fence @ post) = Some (c, r)" by auto
  then show ?thesis
    using assms(1,2) by (simp add: match_block_at_def t d)
qed

lemma findall_blocks_sound:
  "findall_blocks s \<noteq> [] \<Longrightarrow> contains_block s"
proof (induction s rule: findall_blocks.induct)
  case 1
  then show ?case by simp
next
  case (2 c cs)
  show ?case
  proof (cases "match_block_at (c # cs)")
    case None
    with 2 have "contains_block cs" by simp
    then obtain pre w filename code post where
      "cs = pre @ CHR ''#'' # w # filename @ block_header @ code @ fence @ post"
      "is_space w" "filename \<noteq> []" "\<forall>c\<in>set filename. \<not> is_space c"
      unfolding contains_block_def by blast
    then have "c # cs = (c # pre) @ CHR ''#'' # w # filename @ block_header @ code @ fence @ post \<and>
        is_space w \<and> filename \<noteq> [] \<and> (\<forall>c\<in>set filename. \<not> is_space c)"
      by simp
    then show ?thesis unfolding contains_block_def by blast
  next
    case (Some a)
    obtain filename code rest where a: "a = ((filename, code), rest)"
      by (cases a) auto
    from match_block_at_sound [OF Some [unfolded a]]
    obtain w where "c # cs = [] @ CHR ''#'' # w # filename @ block_header @ code @ fence @ rest"
      "is_space w" "filename \<noteq> []" "\<forall>c\<in>set filename. \<not> is_space c"
      by auto
    then show ?thesis unfolding contains_block_def by blast
  qed
qed

lemma findall_blocks_complete:
  "contains_block s \<Longrightarrow> findall_blocks s \<noteq> []"
proof (induction s rule: findall_blocks.induct)
  case 1
  then show ?case by (simp add: contains_block_def)
next
  case (2 c cs)
  show ?case
  proof (cases "match_block_at (c # cs)")
    case (Some a)
    then show ?thesis by (auto split: prod.splits)
  next
    case None
    from "2.prems" obtain pre w filename code post where
      eq: "c # cs = pre @ CHR ''#'' # w # filename @ block_header @ code @ fence @ post"
      and ok: "is_space w" "filename \<noteq> []" "\<forall>c\<in>set filename. \<not> is_space c"
      unfolding contains_block_def by blast
    have "pre \<noteq> []"
    proof
      assume "pre = []"
      with eq match_block_at_complete [OF ok, of code post] None show False by simp
    qed
    then obtain pre' where "pre = c # pre'" "cs = pre' @ CHR ''#'' # w # filename @ block_header @ code @ fence @ post"
      using eq by (cases pre) auto
    with ok have "contains_block cs" unfolding contains_block_def by blast
    with 2 None show ?thesis by simp
  qed
qed

lemma map_of_foldl_update:
  "map_of (foldl (\<lambda>d (filename, code). AList.update filename (strip code) d) d ms) f =
     (case map_of (rev ms) f of Some c \<Rightarrow> Some (strip c) | None \<Rightarrow> map_of d f)"
proof (induction ms arbitrary: d)
  case Nil
  then show ?case by simp
next
  case (Cons m ms)
  obtain g c where m: "m = (g, c)" by (cases m)
  show ?case
    by (simp add: m Cons.IH update_conv' map_add_def split: option.splits)
qed

lemma distinct_foldl_update:
  "distinct (map fst d) \<Longrightarrow>
   distinct (map fst (foldl (\<lambda>d (filename, code). AList.update filename (strip code) d) d ms))"
  by (induction ms arbitrary: d) (auto simp: distinct_update split: prod.splits)

lemma extract_empty_iff:
  "extract_code_from_llm_response r = [] \<longleftrightarrow> findall_blocks r = []"
proof
  assume e: "extract_code_from_llm_response r = []"
  show "findall_blocks r = []"
  proof (rule ccontr)
    assume "findall_blocks r \<noteq> []"
    then obtain ms f c where ms: "findall_blocks r = ms @ [(f, c)]"
      by (metis rev_exhaust surj_pair)
    have "map_of (extract_code_from_llm_response r) f = Some (strip c)"
      unfolding extract_code_from_llm_response_def map_of_foldl_update ms by simp
    with e show False by simp
  qed
next
  assume "findall_blocks r = []"
  then show "extract_code_from_llm_response r = []"
    by (simp add: extract_code_from_llm_response_def)
qed

lemma contains_block_hash: "contains_block s \<Longrightarrow> CHR ''#'' \<in> set s"
  by (auto simp: contains_block_def)

text \<open>
  Claim C6. A response that contains no block matching the grammar parses to the empty
  Code Change Set; and the parse is a function of the response alone: two parses of one
  response give the same mapping.
\<close>

theorem parse_without_block_is_empty:
  "(\<not> contains_block r \<longrightarrow> extract_code_from_llm_response r = []) \<and>
   (\<forall>r'. r' = r \<longrightarrow> extract_code_from_llm_response r' = extract_code_from_llm_response r)"
  using findall_blocks_sound [of r] by (auto simp: extract_empty_iff)

theorem parse_without_block_is_empty_witness:
  "\<not> contains_block ''no code here'' \<and> extract_code_from_llm_response ''no code here'' = []"
  using parse_without_block_is_empty [of "''no code here''"]
    contains_block_hash [of "''no code here''"]
  by auto











section \<open>Properties of the change applier\<close>




lemma code_before_change_of_map:
  "code_before_change_of e fs code_changes acc = Inr before \<Longrightarrow>
   map_of before f =
     (if f \<in> fst ` set code_changes
      then (case read_text e fs f of Inl err \<Rightarrow> None | Inr old_code \<Rightarrow> Some old_code)
      else map_of acc f)"
proof (induction code_changes arbitrary: acc)
  case Nil
  then show ?case by simp
next
  case (Cons p rest)
  obtain g d where p: "p = (g, d)" by (cases p)
  from Cons.prems p obtain old where r: "read_text e fs g = Inr old"
    and c: "code_before_change_of e fs rest (AList.update g old acc) = Inr before"
    by (auto split: sum.splits)
  show ?case
  proof (cases "f \<in> fst ` set rest")
    case True
    with Cons.IH [OF c] p show ?thesis by simp
  next
    case False
    with Cons.IH [OF c] p r show ?thesis by (simp add: update_conv')
  qed
qed

lemma change_entries_keys:
  "f \<in> fst ` set (change_entries e before code_changes) \<Longrightarrow>
   \<exists>new_code old_code. (f, new_code) \<in> set code_changes \<and> map_of before f = Some old_code \<and>
      strip old_code \<noteq> strip new_code"
proof (induction code_changes)
  case Nil
  then show ?case by simp
next
  case (Cons p rest)
  obtain g d where p: "p = (g, d)" by (cases p)
  show ?case
  proof (cases "f \<in> fst ` set (change_entries e before rest)")
    case True
    from Cons.IH [OF this] show ?thesis by auto
  next
    case False
    with Cons.prems p show ?thesis
      by (auto split: option.splits if_splits)
  qed
qed


lemma apply_code_changes_entries:
  assumes "fst (apply_code_changes e code_changes w) = Inr entries"
  obtains before where "code_before_change_of e (files w) code_changes [] = Inr before"
    "entries = change_entries e before code_changes"
proof (cases "code_before_change_of e (files w) code_changes []")
  case (Inl err)
  with assms show ?thesis by (simp add: apply_code_changes_def)
next
  case (Inr before)
  obtain r fs where u: "update_code_files e code_changes (files w) = (r, fs)"
    by (cases "update_code_files e code_changes (files w)")
  with Inr assms have "entries = change_entries e before code_changes"
    by (cases r) (simp_all add: apply_code_changes_def Let_def)
  with Inr that show ?thesis by blast
qed

lemma extract_code_from_llm_response_distinct:
  "distinct (map fst (extract_code_from_llm_response r))"
  unfolding extract_code_from_llm_response_def by (rule distinct_foldl_update) simp

text \<open>
  Claim C8. A file of the applied Code Change Set whose text before the change equals the
  proposed text after stripping both has no entry in the change summary. (The Code
  Change Set is a dict: its keys are distinct, as those of every parse are.)
\<close>

theorem no_entry_for_unchanged_file:
  assumes "fst (apply_code_changes e code_changes w) = Inr entries"
    and "distinct (map fst code_changes)"
    and "(filename, new_code) \<in> set code_changes"
    and "read_text e (files w) filename = Inr old_code"
    and "strip old_code = strip new_code"
  shows "filename \<notin> fst ` set entries"
proof
  assume in_entries: "filename \<in> fst ` set entries"
  from assms(1) obtain before where b: "code_before_change_of e (files w) code_changes [] = Inr before"
    and e: "entries = change_entries e before code_changes"
    by (rule apply_code_changes_entries)
  from change_entries_keys [OF in_entries [unfolded e]]
  obtain new_code' old_code' where n: "(filename, new_code') \<in> set code_changes"
    and o: "map_of before filename = Some old_code'" and d: "strip old_code' \<noteq> strip new_code'"
    by blast
  from assms(2,3) n have "new_code' = new_code"
    by (meson eq_key_imp_eq_value)
  moreover have "old_code' = old_code"
  proof -
    from assms(3) have k: "filename \<in> fst ` set code_changes" by force
    with code_before_change_of_map [OF b, of filename] assms(4) o show ?thesis by simp
  qed
  ultimately show False using d assms(5) by simp
qed

theorem no_entry_for_unchanged_file_witness:
  "fst (apply_code_changes stuck_env [(''a.py'', ''x = 1''), (''b.py'', ''y = 2'')]
          (start (project [(''a.py'', ''x = 1\<newline>''), (''b.py'', ''y = 0'')])))
     = Inr [(''b.py'', [''  - y = 0\<newline>'', ''  + y = 2\<newline>''])] \<and>
   distinct (map fst [(''a.py'', ''x = 1''), (''b.py'', ''y = 2'')]) \<and>
   (''a.py'', ''x = 1'') \<in> set [(''a.py'', ''x = 1''), (''b.py'', ''y = 2'')] \<and>
   read_text stuck_env (files (start (project [(''a.py'', ''x = 1\<newline>''), (''b.py'', ''y = 0'')]))) ''a.py''
     = Inr ''x = 1\<newline>'' \<and>
   strip ''x = 1\<newline>'' = strip ''x = 1'' \<and>
   ''a.py'' \<notin> fst ` set [(''b.py'', [''  - y = 0\<newline>'', ''  + y = 2\<newline>''])]"
proof -
  have h1: "fst (apply_code_changes stuck_env [(''a.py'', ''x = 1''), (''b.py'', ''y = 2'')]
          (start (project [(''a.py'', ''x = 1\<newline>''), (''b.py'', ''y = 0'')])))
     = Inr [(''b.py'', [''  - y = 0\<newline>'', ''  + y = 2\<newline>''])]"
    by code_simp
  have h2: "distinct (map fst [(''a.py'', ''x = 1''), (''b.py'', ''y = 2'')])"
    by simp
  have h3: "(''a.py'', ''x = 1'') \<in> set [(''a.py'', ''x = 1''), (''b.py'', ''y = 2'')]"
    by simp
  have h4: "read_text stuck_env (files (start (project [(''a.py'', ''x = 1\<newline>''), (''b.py'', ''y = 0'')]))) ''a.py''
     = Inr ''x = 1\<newline>''"
    by code_simp
  have h5: "strip ''x = 1\<newline>'' = strip ''x = 1''"
    by code_simp
  from no_entry_for_unchanged_file [OF h1 h2 h3 h4 h5] h1 h2 h3 h4 h5 show ?thesis
    by blast
qed




text \<open>
  Claim C4 on the code: a Code Change Set that names a file \<^verbatim>\<open>b.py\<close> which is not on the
  disk makes the apply step raise \<^verbatim>\<open>FileNotFoundError\<close> in the loop that reads the old
  texts, before anything is written, although the write loop by itself creates the file;
  a session in which the model proposes such a file ends with that exception.
\<close>

theorem new_file_aborts_the_session:
  "fst (apply_code_changes stuck_env [(''b.py'', ''y = 1'')] (start (project [(''a.py'', ''x = 0'')])))
     = Inl (FileNotFoundError ''b.py'') \<and>
   files (snd (apply_code_changes stuck_env [(''b.py'', ''y = 1'')] (start (project [(''a.py'', ''x = 0'')]))))
     (place_of ''b.py'') = None \<and>
   fst (update_code_files stuck_env [(''b.py'', ''y = 1'')] (project [(''a.py'', ''x = 0'')])) = None \<and>
   snd (update_code_files stuck_env [(''b.py'', ''y = 1'')] (project [(''a.py'', ''x = 0'')]))
     (place_of ''b.py'') = Some (Text ''y = 1'') \<and>
   fst (debug adding_env (init [] 3 (Some [''a.py'']) True 5 5) (start (project [(''a.py'', ''x = 0'')])))
     = Inl (FileNotFoundError ''b.py'') \<and>
   files (snd (snd (debug adding_env (init [] 3 (Some [''a.py'']) True 5 5)
      (start (project [(''a.py'', ''x = 0'')]))))) (place_of ''b.py'') = None"
  by code_simp

section \<open>Properties of the failure signature tracker\<close>

lemma current_error_signature_of_outputs:
  "fst (current_error_signature_of e fs acc w) = acc @ concat (filter has_traceback (outputs_of e fs w))"
proof (induction fs arbitrary: acc w)
  case Nil
  then show ?case by simp
next
  case (Cons f fs)
  obtain msg w' where r: "run_subprocess_and_capture_output e f w = (msg, w')"
    by (cases "run_subprocess_and_capture_output e f w")
  show ?case
    by (simp add: r Cons.IH)
qed

lemma signature_in_words_filter:
  "signature_in_words outputs = concat (filter has_traceback outputs)"
  unfolding signature_in_words_def
  by (induction outputs) (simp_all add: failure_text_def)

lemma concat_filter_none:
  "\<forall>out\<in>set outputs. \<not> has_traceback out \<Longrightarrow> concat (filter has_traceback outputs) = []"
  by (induction outputs) simp_all

text \<open>
  Claim C3. The signature the tracker computes is the concatenation of the non-empty
  failure texts in the order of the target set. When it equals the last signature and is
  not empty the counter grows by one (and the last signature stays); otherwise the counter
  becomes 0 and the last signature becomes the current one. In particular, when no target
  file fails the signature is empty and the counter is 0 afterwards, whatever it was.
\<close>

theorem signature_update:
  assumes "current_signature = fst (current_error_signature_of e (files_to_debug self) [] w)"
    and "self' = fst (track_failure_signature e self w)"
  shows "current_signature = signature_in_words (outputs_of e (files_to_debug self) w) \<and>
    (current_signature = last_error_signature self \<and> current_signature \<noteq> [] \<longrightarrow>
       constant_error_count self' = constant_error_count self + 1 \<and>
       last_error_signature self' = last_error_signature self) \<and>
    (\<not> (current_signature = last_error_signature self \<and> current_signature \<noteq> []) \<longrightarrow>
       constant_error_count self' = 0 \<and> last_error_signature self' = current_signature) \<and>
    ((\<forall>out\<in>set (outputs_of e (files_to_debug self) w). \<not> has_traceback out) \<longrightarrow>
       current_signature = [] \<and> constant_error_count self' = 0)"
proof -
  have s: "current_signature = signature_in_words (outputs_of e (files_to_debug self) w)"
    unfolding assms(1) signature_in_words_filter current_error_signature_of_outputs by simp
  have t: "self' = update_error_signature current_signature self"
    unfolding assms
    by (cases "current_error_signature_of e (files_to_debug self) [] w")
       (simp add: track_failure_signature_def)
  have a: "current_signature = last_error_signature self \<and> current_signature \<noteq> [] \<longrightarrow>
       constant_error_count self' = constant_error_count self + 1 \<and>
       last_error_signature self' = last_error_signature self"
    unfolding t by (simp add: update_error_signature_def)
  have b: "\<not> (current_signature = last_error_signature self \<and> current_signature \<noteq> []) \<longrightarrow>
       constant_error_count self' = 0 \<and> last_error_signature self' = current_signature"
    unfolding t by (auto simp: update_error_signature_def)
  have c: "(\<forall>out\<in>set (outputs_of e (files_to_debug self) w). \<not> has_traceback out) \<longrightarrow>
       current_signature = [] \<and> constant_error_count self' = 0"
  proof
    assume "\<forall>out\<in>set (outputs_of e (files_to_debug self) w). \<not> has_traceback out"
    then have "current_signature = []"
      unfolding s signature_in_words_filter by (rule concat_filter_none)
    with b show "current_signature = [] \<and> constant_error_count self' = 0" by simp
  qed
  from s a b c show ?thesis by blast
qed

theorem signature_update_witness:
  "fst (current_error_signature_of stuck_env (files_to_debug stuck_twice) [] (start (project [(''a.py'', ''x = 1/0'')])))
     = ''Traceback: boom'' \<and>
   constant_error_count (fst (track_failure_signature stuck_env stuck_twice (start (project [(''a.py'', ''x = 1/0'')]))))
     = constant_error_count stuck_twice + 1 \<and>
   fst (current_error_signature_of fixing_env (files_to_debug stuck_twice) [] (start (project [(''a.py'', ''ok = 1'')])))
     = [] \<and>
   constant_error_count (fst (track_failure_signature fixing_env stuck_twice (start (project [(''a.py'', ''ok = 1'')]))))
     = 0"
proof -
  have h1: "fst (current_error_signature_of stuck_env (files_to_debug stuck_twice) []
      (start (project [(''a.py'', ''x = 1/0'')]))) = ''Traceback: boom''"
    by code_simp
  have l: "last_error_signature stuck_twice = ''Traceback: boom''"
    by (simp add: stuck_twice_def)
  have o: "\<forall>out\<in>set (outputs_of fixing_env (files_to_debug stuck_twice) (start (project [(''a.py'', ''ok = 1'')]))).
      \<not> has_traceback out"
    by code_simp
  from signature_update [OF h1 [symmetric] refl] l
  have "constant_error_count (fst (track_failure_signature stuck_env stuck_twice (start (project [(''a.py'', ''x = 1/0'')]))))
     = constant_error_count stuck_twice + 1"
    by simp
  moreover from signature_update [OF refl refl, of fixing_env stuck_twice "start (project [(''a.py'', ''ok = 1'')])"] o
  have "fst (current_error_signature_of fixing_env (files_to_debug stuck_twice) [] (start (project [(''a.py'', ''ok = 1'')])))
     = [] \<and>
   constant_error_count (fst (track_failure_signature fixing_env stuck_twice (start (project [(''a.py'', ''ok = 1'')]))))
     = 0"
    by blast
  ultimately show ?thesis using h1 by blast
qed

section \<open>Properties of the controller\<close>

subsection \<open>What an attempt writes to the log\<close>

lemma run_logged:
  "run_subprocess_and_capture_output e f w = (msg, w') \<Longrightarrow> logged w' = logged w"
  by (auto simp: run_subprocess_and_capture_output_def tick_def split: completed_process.splits)

lemma current_error_signature_of_logged:
  "logged (snd (current_error_signature_of e fs acc w)) = logged w"
proof (induction fs arbitrary: acc w)
  case Nil
  then show ?case by simp
next
  case (Cons f fs)
  obtain msg w' where r: "run_subprocess_and_capture_output e f w = (msg, w')"
    by (cases "run_subprocess_and_capture_output e f w")
  show ?case
    by (simp add: r Cons.IH run_logged [OF r])
qed

lemma all_errors_of_logged:
  "logged (snd (all_errors_of e fs acc w)) = logged w"
proof (induction fs arbitrary: acc w)
  case Nil
  then show ?case by simp
next
  case (Cons f fs)
  obtain msg w' where r: "run_subprocess_and_capture_output e f w = (msg, w')"
    by (cases "run_subprocess_and_capture_output e f w")
  show ?case
    by (simp add: r Cons.IH run_logged [OF r])
qed

lemma check_for_errors_logged:
  "logged (snd (check_for_errors e fs w)) = logged w"
proof (induction fs arbitrary: w)
  case Nil
  then show ?case by simp
next
  case (Cons f fs)
  obtain msg w' where r: "run_subprocess_and_capture_output e f w = (msg, w')"
    by (cases "run_subprocess_and_capture_output e f w")
  show ?case
    by (simp add: r Cons.IH run_logged [OF r])
qed

lemma track_failure_signature_logged:
  "logged (snd (track_failure_signature e self w)) = logged w"
  using current_error_signature_of_logged [of e "files_to_debug self" "[]" w]
  by (auto simp: track_failure_signature_def split: prod.splits)

lemma construct_prompt_for_llm_logged:
  "logged (snd (construct_prompt_for_llm e self internet_content w)) = logged w"
proof -
  have t: "logged (tick w) = logged w" by (simp add: tick_def)
  show ?thesis
    using all_errors_of_logged [of e "files_to_debug self" "[]" "tick w"] t
    by (auto simp: construct_prompt_for_llm_def Let_def split: sum.splits prod.splits)
qed

lemma generate_search_query_for_google_logged:
  "logged (snd (generate_search_query_for_google e self w)) = logged w"
  using construct_prompt_for_llm_logged [of e self "[]" w]
  by (auto simp: generate_search_query_for_google_def tick_def
           split: prod.splits sum.splits option.splits)

lemma milestones_tick [simp]: "milestones (tick w) = milestones w"
  by (simp add: milestones_def tick_def)

lemma milestones_logging:
  "milestones (logging r w) = milestones w @ (if milestone r then [r] else [])"
  by (simp add: milestones_def logging_def)

lemma milestones_cong: "logged w' = logged w \<Longrightarrow> milestones w' = milestones w"
  by (simp add: milestones_def)

lemma fetch_pages_milestones:
  "milestones (snd (fetch_pages e urls acc w)) = milestones w"
  by (induction urls arbitrary: acc w) (simp_all add: milestones_logging split: option.splits)

lemma fetch_internet_content_milestones:
  "milestones (snd (fetch_internet_content e self q n w)) = milestones w"
  by (simp add: fetch_internet_content_def internet_search_def Let_def fetch_pages_milestones
           split: option.splits)

lemma apply_code_changes_milestones:
  "milestones (snd (apply_code_changes e code_changes w)) = milestones w"
proof (cases "code_before_change_of e (files w) code_changes []")
  case (Inl err)
  then show ?thesis by (simp add: apply_code_changes_def)
next
  case (Inr before)
  obtain r fs where u: "update_code_files e code_changes (files w) = (r, fs)"
    by (cases "update_code_files e code_changes (files w)")
  with Inr show ?thesis
    by (cases r) (simp_all add: apply_code_changes_def Let_def milestones_def logging_def)
qed

lemma prompt_with_error_milestones:
  assumes "prompt_with_error e self w = (r, self', w')"
  shows "milestones w' = milestones w @
     (if escalation_due self then [SameErrorDetected (internet_search_threshold self)] else [])"
proof (cases "escalation_due self")
  case False
  with assms have "w' = snd (construct_prompt_for_llm e self [] w)"
    by (auto simp: prompt_with_error_def split: prod.splits)
  with False show ?thesis
    by (simp add: milestones_cong [OF construct_prompt_for_llm_logged])
next
  case True
  let ?w0 = "logging (SameErrorDetected (internet_search_threshold self)) w"
  have m0: "milestones ?w0 = milestones w @ [SameErrorDetected (internet_search_threshold self)]"
    by (simp add: milestones_logging)
  obtain rq w1 where q: "generate_search_query_for_google e self ?w0 = (rq, w1)"
    by (cases "generate_search_query_for_google e self ?w0")
  have m1: "milestones w1 = milestones ?w0"
    using generate_search_query_for_google_logged [of e self ?w0] q
    by (simp add: milestones_def)
  show ?thesis
  proof (cases rq)
    case (Inl err)
    with assms True q have "w' = w1"
      by (simp add: prompt_with_error_def)
    with m0 m1 True show ?thesis by simp
  next
    case (Inr search_query)
    let ?w1' = "logging (GeneratedQuery search_query) w1"
    obtain content w2 where f: "fetch_internet_content e self search_query (num_search_urls self) ?w1' = (content, w2)"
      by (cases "fetch_internet_content e self search_query (num_search_urls self) ?w1'")
    have m2: "milestones w2 = milestones w1"
      using fetch_internet_content_milestones [of e self search_query "num_search_urls self" ?w1'] f
      by (simp add: milestones_logging)
    from assms True q Inr f have "w' = snd (construct_prompt_for_llm e self content w2)"
      by (auto simp: prompt_with_error_def split: prod.splits sum.splits)
    then have "milestones w' = milestones w2"
      by (simp add: milestones_cong [OF construct_prompt_for_llm_logged])
    with m0 m1 m2 True show ?thesis by simp
  qed
qed

lemma prompt_with_error_self:
  "prompt_with_error e self w = (Inr p, self', w') \<Longrightarrow>
   self' = (if escalation_due self then self\<lparr>constant_error_count := 0\<rparr> else self)"
  by (auto simp: prompt_with_error_def split: if_splits prod.splits sum.splits)

lemma repair_milestones:
  assumes "repair e self p w = (r, w')"
  shows "milestones w' = milestones w @ (if r = Inr False then [AllErrorsFixed] else [])"
proof (cases "generate_response e (clock w) (p @ guide_prompt) SYSTEM_PROMPT")
  case None
  with assms show ?thesis by (auto simp: repair_def)
next
  case (Some llm_response)
  obtain ra w1 where a: "apply_code_changes e (extract_code_from_llm_response llm_response) (tick w) = (ra, w1)"
    by (cases "apply_code_changes e (extract_code_from_llm_response llm_response) (tick w)")
  have m1: "milestones w1 = milestones w"
    using apply_code_changes_milestones [of e "extract_code_from_llm_response llm_response" "tick w"] a
    by simp
  show ?thesis
  proof (cases ra)
    case (Inl err)
    with assms Some a m1 show ?thesis by (auto simp: repair_def)
  next
    case (Inr entries)
    obtain b w2 where c: "check_for_errors e (files_to_debug self) w1 = (b, w2)"
      by (cases "check_for_errors e (files_to_debug self) w1")
    have m2: "milestones w2 = milestones w1"
      using check_for_errors_logged [of e "files_to_debug self" w1] c
      by (simp add: milestones_def)
    from assms Some a Inr c
    have "r = Inr b" "w' = logging (if b then ErrorStillExists else AllErrorsFixed) w2"
      by (auto simp: repair_def)
    with m1 m2 show ?thesis by (simp add: milestones_logging)
  qed
qed

lemma repair_result:
  "repair e self p w = (Inr b, w') \<Longrightarrow> \<exists>w1. b = fst (check_for_errors e (files_to_debug self) w1)"
  by (auto simp: repair_def split: option.splits prod.splits sum.splits) (metis fst_conv)

subsection \<open>The course of an attempt\<close>

lemma track_failure_signature_eq:
  "fst (track_failure_signature e self w) =
     update_error_signature (fst (current_error_signature_of e (files_to_debug self) [] w)) self"
  by (simp add: track_failure_signature_def split: prod.splits)

lemma update_error_signature_fields:
  "max_attempts (update_error_signature s self) = max_attempts self"
  "files_to_debug (update_error_signature s self) = files_to_debug self"
  "enable_internet_search (update_error_signature s self) = enable_internet_search self"
  "internet_search_threshold (update_error_signature s self) = internet_search_threshold self"
  "attempt_count (update_error_signature s self) = attempt_count self"
  by (simp_all add: update_error_signature_def)

lemma update_error_signature_count:
  "constant_error_count self = 0 \<Longrightarrow> constant_error_count (update_error_signature s self) \<le> 1"
  by (simp add: update_error_signature_def)

text \<open>The course of one attempt, named step by step.\<close>

lemma attempt_cases:
  assumes "attempt e self w = (r, self', w')"
  obtains (raised) t w1 err where
      "track_failure_signature e (self\<lparr>attempt_count := attempt_count self + 1\<rparr>)
         (logging (Attempt (attempt_count self + 1)) w) = (t, w1)"
      "prompt_with_error e t w1 = (Inl err, self', w')" "r = Inl err"
  | (prompted) t w1 p w2 where
      "track_failure_signature e (self\<lparr>attempt_count := attempt_count self + 1\<rparr>)
         (logging (Attempt (attempt_count self + 1)) w) = (t, w1)"
      "prompt_with_error e t w1 = (Inr p, self', w2)" "repair e self' p w2 = (r, w')"
proof -
  let ?self1 = "self\<lparr>attempt_count := attempt_count self + 1\<rparr>"
  let ?w0 = "logging (Attempt (attempt_count self + 1)) w"
  obtain t w1 where t: "track_failure_signature e ?self1 ?w0 = (t, w1)"
    by (cases "track_failure_signature e ?self1 ?w0")
  obtain rp s3 w2 where p: "prompt_with_error e t w1 = (rp, s3, w2)"
    by (cases "prompt_with_error e t w1")
  show thesis
  proof (cases rp)
    case (Inl err)
    with assms t p have "r = Inl err" "self' = s3" "w' = w2"
      by (simp_all add: attempt_def Let_def)
    with t p Inl raised show thesis by blast
  next
    case (Inr pr)
    obtain rr w3 where rr: "repair e s3 pr w2 = (rr, w3)"
      by (cases "repair e s3 pr w2")
    with assms t p Inr have "r = rr" "self' = s3" "w' = w3"
      by (simp_all add: attempt_def Let_def)
    with t p Inr rr prompted show thesis by blast
  qed
qed

lemma escalates_track:
  "track_failure_signature e (self\<lparr>attempt_count := attempt_count self + 1\<rparr>)
     (logging (Attempt (attempt_count self + 1)) w) = (t, w1) \<Longrightarrow>
   escalates e self w = escalation_due t"
  by (simp add: escalates_def)

lemma track_threshold:
  "track_failure_signature e self w = (t, w1) \<Longrightarrow>
   internet_search_threshold t = internet_search_threshold self \<and>
   enable_internet_search t = enable_internet_search self \<and>
   files_to_debug t = files_to_debug self"
  using track_failure_signature_eq [of e self w]
  by (simp add: update_error_signature_fields)

lemma attempt_milestones:
  assumes "attempt e self w = (r, self', w')"
  shows "milestones w' = milestones w @ [Attempt (attempt_count self + 1)]
     @ (if escalates e self w then [SameErrorDetected (internet_search_threshold self)] else [])
     @ (if r = Inr False then [AllErrorsFixed] else [])"
  using assms
proof (cases rule: attempt_cases)
  case (raised t w1 err)
  have "milestones w1 = milestones w @ [Attempt (attempt_count self + 1)]"
    using track_failure_signature_logged [of e "self\<lparr>attempt_count := attempt_count self + 1\<rparr>"
        "logging (Attempt (attempt_count self + 1)) w"] raised(1)
    by (simp add: milestones_def logging_def)
  with prompt_with_error_milestones [OF raised(2)] escalates_track [OF raised(1)]
    track_threshold [OF raised(1)] raised(3)
  show ?thesis by simp
next
  case (prompted t w1 p w2)
  have "milestones w1 = milestones w @ [Attempt (attempt_count self + 1)]"
    using track_failure_signature_logged [of e "self\<lparr>attempt_count := attempt_count self + 1\<rparr>"
        "logging (Attempt (attempt_count self + 1)) w"] prompted(1)
    by (simp add: milestones_def logging_def)
  with prompt_with_error_milestones [OF prompted(2)] escalates_track [OF prompted(1)]
    track_threshold [OF prompted(1)] repair_milestones [OF prompted(3)]
  show ?thesis by simp
qed

lemma attempt_completed:
  assumes "attempt e self w = (Inr b, self', w')"
  obtains t w1 w2 where
    "t = fst (track_failure_signature e (self\<lparr>attempt_count := attempt_count self + 1\<rparr>)
         (logging (Attempt (attempt_count self + 1)) w))"
    "self' = (if escalation_due t then t\<lparr>constant_error_count := 0\<rparr> else t)"
    "b = fst (check_for_errors e (files_to_debug self) w2)"
  using assms
proof (cases rule: attempt_cases)
  case (raised t w1 err)
  then show ?thesis by simp
next
  case (prompted t w1 p w2)
  from prompt_with_error_self [OF prompted(2)]
  have s: "self' = (if escalation_due t then t\<lparr>constant_error_count := 0\<rparr> else t)" .
  from track_threshold [OF prompted(1)] s have f: "files_to_debug self' = files_to_debug self"
    by (simp split: if_splits)
  from repair_result [OF prompted(3)] f obtain w3 where
    "b = fst (check_for_errors e (files_to_debug self) w3)" by auto
  with s prompted(1) that show ?thesis by simp
qed

subsection \<open>The attempt counter\<close>

lemma attempt_numbers_append:
  "attempt_numbers (xs @ ys) = attempt_numbers xs @ attempt_numbers ys"
  by (induction xs rule: attempt_numbers.induct) simp_all

lemma attempt_numbers_milestones:
  "attempt_numbers (filter milestone xs) = attempt_numbers xs"
  by (induction xs rule: attempt_numbers.induct) simp_all

lemma attempt_attempt_numbers:
  assumes "attempt e self w = (r, self', w')"
  shows "attempt_numbers (logged w') = attempt_numbers (logged w) @ [attempt_count self + 1]"
proof -
  have "attempt_numbers (logged w') = attempt_numbers (milestones w')"
    by (simp add: milestones_def attempt_numbers_milestones)
  also have "\<dots> = attempt_numbers (milestones w) @ [attempt_count self + 1]"
    unfolding attempt_milestones [OF assms] by (simp add: attempt_numbers_append)
  finally show ?thesis
    by (simp add: milestones_def attempt_numbers_milestones)
qed

lemma debug_loop_exit:
  "\<not> (error_exists \<and> attempt_count self < max_attempts self) \<Longrightarrow>
   debug_loop e error_exists self w = (Inr (), self, w)"
  by (subst debug_loop.simps) auto

lemma debug_loop_step:
  "error_exists \<and> attempt_count self < max_attempts self \<Longrightarrow>
   debug_loop e error_exists self w =
     (case attempt e self w of
        (Inl err, self', w') \<Rightarrow> (Inl err, self', w')
      | (Inr error_exists', self', w') \<Rightarrow> debug_loop e error_exists' self' w')"
  by (subst debug_loop.simps) simp

lemma debug_loop_attempts:
  "debug_loop e error_exists self w = (r, self', w') \<Longrightarrow>
     attempt_count self \<le> attempt_count self' \<and>
     max_attempts self' = max_attempts self \<and>
     (attempt_count self \<le> max_attempts self \<longrightarrow> attempt_count self' \<le> max_attempts self) \<and>
     attempt_numbers (logged w') =
       attempt_numbers (logged w) @ [attempt_count self + 1 .. attempt_count self']"
proof (induction e error_exists self w arbitrary: r self' w' rule: debug_loop.induct)
  case (1 e error_exists self w)
  show ?case
  proof (cases "error_exists \<and> attempt_count self < max_attempts self")
    case False
    with "1.prems" debug_loop_exit [OF False, of e w] show ?thesis
      by simp
  next
    case True
    obtain ra sa wa where a: "attempt e self w = (ra, sa, wa)"
      by (cases "attempt e self w")
    from attempt_counts [OF a] have c: "attempt_count sa = attempt_count self + 1"
      and m: "max_attempts sa = max_attempts self" by simp_all
    note n = attempt_attempt_numbers [OF a]
    show ?thesis
    proof (cases ra)
      case (Inl err)
      with "1.prems" debug_loop_step [OF True, of e w] a
      have "self' = sa" "w' = wa" by simp_all
      with c m n True show ?thesis by simp
    next
      case (Inr b)
      with "1.prems" debug_loop_step [OF True, of e w] a
      have d: "debug_loop e b sa wa = (r, self', w')" by simp
      from "1.IH" [OF True a [symmetric] Inr refl d]
      have le: "attempt_count sa \<le> attempt_count self'"
        and m': "max_attempts self' = max_attempts sa"
        and b': "attempt_count sa \<le> max_attempts sa \<longrightarrow> attempt_count self' \<le> max_attempts sa"
        and n': "attempt_numbers (logged w') =
           attempt_numbers (logged wa) @ [attempt_count sa + 1 .. attempt_count self']"
        by simp_all
      have "[attempt_count self + 1 .. attempt_count self'] =
          (attempt_count self + 1) # [attempt_count sa + 1 .. attempt_count self']"
        using le c by (simp add: upto_rec1)
      with n n' have "attempt_numbers (logged w') =
         attempt_numbers (logged w) @ [attempt_count self + 1 .. attempt_count self']"
        by simp
      with le m' b' c m True show ?thesis by simp
    qed
  qed
qed

text \<open>
  Claim C10. In a session whose attempt budget is not negative (the data model has
  \<open>max_attempts > 0\<close>), the counter starts at 0 and ends between 0 and \<open>max_attempts\<close>,
  whether the session ends by itself or by an exception; the attempts logged are numbered
  1, 2, ... up to its final value, so it takes every value on the way and grows by one
  per attempt; every attempt adds exactly one to it; and the loop runs no attempt once
  the counter has reached \<open>max_attempts\<close>.
\<close>

theorem attempt_count_bounded:
  assumes "0 \<le> max_attempts0"
    and "self0 = init listdir max_attempts0 files0 enable0 num0 threshold0"
    and "debug e self0 w0 = (r, self', w')"
  shows "attempt_count self0 = 0 \<and>
    0 \<le> attempt_count self' \<and> attempt_count self' \<le> max_attempts self' \<and>
    max_attempts self' = max_attempts0 \<and>
    attempt_numbers (logged w') = attempt_numbers (logged w0) @ [1 .. attempt_count self'] \<and>
    (\<forall>self w. attempt_count (fst (snd (attempt e self w))) = attempt_count self + 1) \<and>
    (\<forall>b self w. max_attempts self \<le> attempt_count self \<longrightarrow>
       debug_loop e b self w = (Inr (), self, w))"
proof -
  have i: "attempt_count self0 = 0" "max_attempts self0 = max_attempts0"
    unfolding assms(2) by (simp_all add: init_def)
  obtain rl sl wl where l: "debug_loop e True self0 w0 = (rl, sl, wl)"
    by (cases "debug_loop e True self0 w0")
  from assms(3) l have s: "self' = sl"
    and w: "attempt_numbers (logged w') = attempt_numbers (logged wl)"
    by (auto simp: debug_def logging_def attempt_numbers_append split: sum.splits if_splits)
  from debug_loop_attempts [OF l] i assms(1) s w
  have "0 \<le> attempt_count self' \<and> attempt_count self' \<le> max_attempts self' \<and>
    max_attempts self' = max_attempts0 \<and>
    attempt_numbers (logged w') = attempt_numbers (logged w0) @ [1 .. attempt_count self']"
    by simp
  moreover have "\<forall>self w. attempt_count (fst (snd (attempt e self w))) = attempt_count self + 1"
  proof (intro allI)
    fix self w
    obtain ra sa wa where "attempt e self w = (ra, sa, wa)"
      by (cases "attempt e self w")
    from attempt_counts [OF this] this
    show "attempt_count (fst (snd (attempt e self w))) = attempt_count self + 1" by simp
  qed
  moreover have "\<forall>b self w. max_attempts self \<le> attempt_count self \<longrightarrow>
       debug_loop e b self w = (Inr (), self, w)"
    by (intro allI impI debug_loop_exit) simp
  ultimately show ?thesis using i by blast
qed

theorem attempt_count_bounded_witness:
  "(0::int) \<le> 3 \<and>
   attempt_count (init [] 3 (Some [''a.py'']) True 5 2) = 0 \<and>
   0 \<le> attempt_count (fst (snd (debug stuck_env (init [] 3 (Some [''a.py'']) True 5 2)
          (start (project [(''a.py'', ''x = 1/0'')]))))) \<and>
   attempt_count (fst (snd (debug stuck_env (init [] 3 (Some [''a.py'']) True 5 2)
          (start (project [(''a.py'', ''x = 1/0'')])))))
     \<le> max_attempts (fst (snd (debug stuck_env (init [] 3 (Some [''a.py'']) True 5 2)
          (start (project [(''a.py'', ''x = 1/0'')]))))) \<and>
   attempt_numbers (logged (snd (snd (debug stuck_env (init [] 3 (Some [''a.py'']) True 5 2)
          (start (project [(''a.py'', ''x = 1/0'')]))))))
     = attempt_numbers (logged (start (project [(''a.py'', ''x = 1/0'')])))
       @ [1 .. attempt_count (fst (snd (debug stuck_env (init [] 3 (Some [''a.py'']) True 5 2)
          (start (project [(''a.py'', ''x = 1/0'')])))))] \<and>
   attempt_numbers (logged (snd (snd (debug stuck_env (init [] 3 (Some [''a.py'']) True 5 2)
          (start (project [(''a.py'', ''x = 1/0'')]))))))
     = [1, 2, 3]"
proof -
  have h: "(0::int) \<le> 3" by simp
  have d: "debug stuck_env (init [] 3 (Some [''a.py'']) True 5 2) (start (project [(''a.py'', ''x = 1/0'')]))
    = (fst (debug stuck_env (init [] 3 (Some [''a.py'']) True 5 2) (start (project [(''a.py'', ''x = 1/0'')]))),
       fst (snd (debug stuck_env (init [] 3 (Some [''a.py'']) True 5 2) (start (project [(''a.py'', ''x = 1/0'')])))),
       snd (snd (debug stuck_env (init [] 3 (Some [''a.py'']) True 5 2) (start (project [(''a.py'', ''x = 1/0'')])))))"
    by simp
  have n: "attempt_numbers (logged (snd (snd (debug stuck_env (init [] 3 (Some [''a.py'']) True 5 2)
          (start (project [(''a.py'', ''x = 1/0'')]))))))
     = [1, 2, 3]"
    by code_simp
  from attempt_count_bounded [OF h refl d] h n show ?thesis by blast
qed

subsection \<open>Escalation\<close>

text \<open>
  Claim C5, as stated, fails in its last part: with the threshold at 1 the second and the
  third attempt of one stuck streak both escalate.
\<close>

theorem escalates_twice_in_a_row:
  "milestones (snd (snd (debug stuck_env (init [] 3 (Some [''a.py'']) True 5 1)
      (start (project [(''a.py'', ''x = 1/0'')])))))
     = [Attempt 1, Attempt 2, SameErrorDetected 1, Attempt 3, SameErrorDetected 1,
        MaximumAttemptReached]"
  by code_simp

text \<open>
  Claim C5, amended. Whenever the escalation branch runs to completion the counter is 0
  afterwards, whatever the search and the fetches return, and it is still 0 when the
  attempt completes; and when the threshold is at least 2, the attempt that follows an
  attempt that escalated does not escalate.
\<close>

theorem escalation_resets_counter:
  "(escalation_due self \<and> \<not> isl (fst (prompt_with_error e self w)) \<longrightarrow>
      constant_error_count (fst (snd (prompt_with_error e self w))) = 0) \<and>
   (escalates e self w \<and> \<not> isl (fst (attempt e self w)) \<longrightarrow>
      constant_error_count (fst (snd (attempt e self w))) = 0 \<and>
      (2 \<le> internet_search_threshold self \<longrightarrow>
         \<not> escalates e (fst (snd (attempt e self w))) (snd (snd (attempt e self w)))))"
proof (intro conjI impI)
  assume a: "escalation_due self \<and> \<not> isl (fst (prompt_with_error e self w))"
  obtain r s' w' where p: "prompt_with_error e self w = (r, s', w')"
    by (cases "prompt_with_error e self w")
  with a obtain pr where "r = Inr pr" by (cases r) simp_all
  with prompt_with_error_self [of e self w pr s' w'] p a
  show "constant_error_count (fst (snd (prompt_with_error e self w))) = 0"
    by simp
next
  assume a: "escalates e self w \<and> \<not> isl (fst (attempt e self w))"
  obtain r s' w' where p: "attempt e self w = (r, s', w')"
    by (cases "attempt e self w")
  with a obtain b where r: "r = Inr b" by (cases r) simp_all
  from p r obtain t where
    t: "t = fst (track_failure_signature e (self\<lparr>attempt_count := attempt_count self + 1\<rparr>)
         (logging (Attempt (attempt_count self + 1)) w))"
    and s: "s' = (if escalation_due t then t\<lparr>constant_error_count := 0\<rparr> else t)"
    by (blast elim: attempt_completed)
  from a t have due: "escalation_due t" by (simp add: escalates_def)
  with s have s0: "s' = t\<lparr>constant_error_count := 0\<rparr>" by simp
  then have c: "constant_error_count s' = 0" by simp
  with p show "constant_error_count (fst (snd (attempt e self w))) = 0" by simp
  have th: "internet_search_threshold s' = internet_search_threshold self"
    unfolding s0 t track_failure_signature_eq by (simp add: update_error_signature_fields)
  {
    assume two: "2 \<le> internet_search_threshold self"
    let ?n = "fst (track_failure_signature e (s'\<lparr>attempt_count := attempt_count s' + 1\<rparr>)
         (logging (Attempt (attempt_count s' + 1)) w'))"
    have "constant_error_count ?n \<le> 1"
      unfolding track_failure_signature_eq using c by (simp add: update_error_signature_count)
    moreover have "internet_search_threshold ?n = internet_search_threshold self"
      unfolding track_failure_signature_eq using th by (simp add: update_error_signature_fields)
    ultimately have "\<not> escalation_due ?n"
      using two by (simp add: escalation_due_def)
    then have "\<not> escalates e s' w'" by (simp add: escalates_def)
  }
  with p show "2 \<le> internet_search_threshold self \<Longrightarrow>
      \<not> escalates e (fst (snd (attempt e self w))) (snd (snd (attempt e self w)))"
    by simp
qed

theorem escalation_resets_counter_witness:
  "escalation_due (stuck_once\<lparr>constant_error_count := 2\<rparr>) \<and>
   \<not> isl (fst (prompt_with_error stuck_env (stuck_once\<lparr>constant_error_count := 2\<rparr>)
                 (start (project [(''a.py'', ''x = 1/0'')])))) \<and>
   constant_error_count (fst (snd (prompt_with_error stuck_env (stuck_once\<lparr>constant_error_count := 2\<rparr>)
                 (start (project [(''a.py'', ''x = 1/0'')]))))) = 0 \<and>
   escalates stuck_env stuck_once (start (project [(''a.py'', ''x = 1/0'')])) \<and>
   \<not> isl (fst (attempt stuck_env stuck_once (start (project [(''a.py'', ''x = 1/0'')])))) \<and>
   2 \<le> internet_search_threshold stuck_once \<and>
   constant_error_count (fst (snd (attempt stuck_env stuck_once (start (project [(''a.py'', ''x = 1/0'')]))))) = 0 \<and>
   \<not> escalates stuck_env (fst (snd (attempt stuck_env stuck_once (start (project [(''a.py'', ''x = 1/0'')])))))
        (snd (snd (attempt stuck_env stuck_once (start (project [(''a.py'', ''x = 1/0'')])))))"
proof -
  have h1: "escalation_due (stuck_once\<lparr>constant_error_count := 2\<rparr>)"
    by code_simp
  have h2: "\<not> isl (fst (prompt_with_error stuck_env (stuck_once\<lparr>constant_error_count := 2\<rparr>)
                 (start (project [(''a.py'', ''x = 1/0'')]))))"
    by code_simp
  have h3: "escalates stuck_env stuck_once (start (project [(''a.py'', ''x = 1/0'')]))"
    by code_simp
  have h4: "\<not> isl (fst (attempt stuck_env stuck_once (start (project [(''a.py'', ''x = 1/0'')]))))"
    by code_simp
  have h5: "2 \<le> internet_search_threshold stuck_once"
    by code_simp
  from escalation_resets_counter [of "stuck_once\<lparr>constant_error_count := 2\<rparr>" stuck_env
      "start (project [(''a.py'', ''x = 1/0'')])"] h1 h2
  have c1: "constant_error_count (fst (snd (prompt_with_error stuck_env (stuck_once\<lparr>constant_error_count := 2\<rparr>)
                 (start (project [(''a.py'', ''x = 1/0'')]))))) = 0"
    by blast
  from escalation_resets_counter [of stuck_once stuck_env "start (project [(''a.py'', ''x = 1/0'')])"] h3 h4 h5
  have c2: "constant_error_count (fst (snd (attempt stuck_env stuck_once (start (project [(''a.py'', ''x = 1/0'')]))))) = 0 \<and>
   \<not> escalates stuck_env (fst (snd (attempt stuck_env stuck_once (start (project [(''a.py'', ''x = 1/0'')])))))
        (snd (snd (attempt stuck_env stuck_once (start (project [(''a.py'', ''x = 1/0'')])))))"
    by blast
  from h1 h2 h3 h4 h5 c1 c2 show ?thesis by blast
qed

subsection \<open>Scenario A\<close>

text \<open>
  Claim C2, as stated, fails: with \<open>max_attempts = 3\<close> and the threshold at 2, a file that
  fails identically on every run sees no escalation in attempt 2; the escalation comes
  in attempt 3.
\<close>

theorem scenario_no_escalation_on_second_attempt:
  "milestones (snd (snd (debug stuck_env (init [] 3 (Some [''a.py'']) True 5 2)
      (start (project [(''a.py'', ''x = 1/0'')])))))
     = [Attempt 1, Attempt 2, Attempt 3, SameErrorDetected 2, MaximumAttemptReached]"
  by code_simp

lemma has_traceback_nonempty: "has_traceback s \<Longrightarrow> s \<noteq> []"
  by (auto simp: has_traceback_def)

lemma stuck_run:
  assumes "\<forall>t fs. subprocess_run e t fs f = CalledProcessError stderr"
  shows "run_subprocess_and_capture_output e f w = (strip stderr, tick w)"
  using assms by (simp add: run_subprocess_and_capture_output_def)

lemma stuck_attempt:
  assumes fail: "\<forall>t fs. subprocess_run e t fs f = CalledProcessError stderr"
    and tb: "has_traceback (strip stderr)"
    and fs: "files_to_debug self = [f]"
    and a: "attempt e self w = (Inr b, self', w')"
  shows "b = True \<and> self' = after_attempt (strip stderr) self \<and>
    milestones w' = milestones w @ [Attempt (attempt_count self + 1)]
      @ (if escalation_due (update_error_signature (strip stderr)
              (self\<lparr>attempt_count := attempt_count self + 1\<rparr>))
         then [SameErrorDetected (internet_search_threshold self)] else [])"
proof -
  let ?self1 = "self\<lparr>attempt_count := attempt_count self + 1\<rparr>"
  let ?w0 = "logging (Attempt (attempt_count self + 1)) w"
  have sig: "\<And>w. fst (current_error_signature_of e [f] [] w) = strip stderr"
    using tb by (simp add: stuck_run [OF fail])
  have chk: "\<And>w. fst (check_for_errors e [f] w) = True"
    using tb by (simp add: stuck_run [OF fail])
  from fs have f1: "files_to_debug ?self1 = [f]" by simp
  have t: "fst (track_failure_signature e ?self1 ?w0) = update_error_signature (strip stderr) ?self1"
    unfolding track_failure_signature_eq f1 sig ..
  from a obtain w2 where
    s: "self' = (if escalation_due (fst (track_failure_signature e ?self1 ?w0))
                 then (fst (track_failure_signature e ?self1 ?w0))\<lparr>constant_error_count := 0\<rparr>
                 else fst (track_failure_signature e ?self1 ?w0))"
    and b: "b = fst (check_for_errors e (files_to_debug self) w2)"
    by (blast elim: attempt_completed)
  from b fs chk have "b = True" by simp
  moreover from s t have "self' = after_attempt (strip stderr) self"
    by (simp add: after_attempt_def Let_def)
  moreover have "escalates e self w = escalation_due (update_error_signature (strip stderr) ?self1)"
    unfolding escalates_def t ..
  with attempt_milestones [OF a] \<open>b = True\<close>
  have "milestones w' = milestones w @ [Attempt (attempt_count self + 1)]
      @ (if escalation_due (update_error_signature (strip stderr) ?self1)
         then [SameErrorDetected (internet_search_threshold self)] else [])"
    by simp
  ultimately show ?thesis by blast
qed

lemma stuck_loop_step:
  assumes fail: "\<forall>t fs. subprocess_run e t fs f = CalledProcessError stderr"
    and tb: "has_traceback (strip stderr)"
    and fs: "files_to_debug self = [f]"
    and lt: "attempt_count self < max_attempts self"
    and ok: "\<not> isl (fst (debug_loop e True self w))"
  obtains w' where
    "debug_loop e True self w = debug_loop e True (after_attempt (strip stderr) self) w'"
    "milestones w' = milestones w @ [Attempt (attempt_count self + 1)]
      @ (if escalation_due (update_error_signature (strip stderr)
              (self\<lparr>attempt_count := attempt_count self + 1\<rparr>))
         then [SameErrorDetected (internet_search_threshold self)] else [])"
proof -
  obtain r s' w' where a: "attempt e self w = (r, s', w')"
    by (cases "attempt e self w")
  from lt have g: "True \<and> attempt_count self < max_attempts self" by simp
  show thesis
  proof (cases r)
    case (Inl err)
    with a debug_loop_step [OF g, of e w] ok show ?thesis by simp
  next
    case (Inr b)
    from stuck_attempt [OF fail tb fs a [unfolded Inr]]
    have "b = True" "s' = after_attempt (strip stderr) self"
      "milestones w' = milestones w @ [Attempt (attempt_count self + 1)]
        @ (if escalation_due (update_error_signature (strip stderr)
              (self\<lparr>attempt_count := attempt_count self + 1\<rparr>))
           then [SameErrorDetected (internet_search_threshold self)] else [])"
      by simp_all
    moreover from a Inr debug_loop_step [OF g, of e w]
    have "debug_loop e True self w = debug_loop e b s' w'" by simp
    ultimately show ?thesis using that by simp
  qed
qed

text \<open>
  Claim C2, amended. For a target set of one file whose every run fails with the same
  text, with \<open>max_attempts = 3\<close>, the threshold at 2 and internet search enabled, a
  session that no exception aborts escalates in attempt 3 and in no other, and ends
  exhausted after attempt 3.
\<close>

theorem stuck_file_escalates_on_third_attempt:
  assumes fail: "\<forall>t fs. subprocess_run e t fs f = CalledProcessError stderr"
    and tb: "has_traceback (strip stderr)"
    and init: "self0 = init listdir 3 (Some [f]) True num_urls 2"
    and ok: "\<not> isl (fst (debug e self0 w0))"
  shows "milestones (snd (snd (debug e self0 w0))) =
      milestones w0 @ [Attempt 1, Attempt 2, Attempt 3, SameErrorDetected 2, MaximumAttemptReached] \<and>
    attempt_count (fst (snd (debug e self0 w0))) = 3"
proof -
  let ?E = "strip stderr"
  from tb have ne: "?E \<noteq> []" by (rule has_traceback_nonempty)
  define s1 where "s1 = self0\<lparr>attempt_count := 1, last_error_signature := ?E\<rparr>"
  define s2 where "s2 = self0\<lparr>attempt_count := 2, constant_error_count := 1, last_error_signature := ?E\<rparr>"
  define s3 where "s3 = self0\<lparr>attempt_count := 3, last_error_signature := ?E\<rparr>"
  have n1: "after_attempt ?E self0 = s1"
    "\<not> escalation_due (update_error_signature ?E (self0\<lparr>attempt_count := attempt_count self0 + 1\<rparr>))"
    using ne by (simp_all add: init s1_def after_attempt_def init_def update_error_signature_def
        escalation_due_def Let_def)
  have n2: "after_attempt ?E s1 = s2"
    "\<not> escalation_due (update_error_signature ?E (s1\<lparr>attempt_count := attempt_count s1 + 1\<rparr>))"
    using ne by (simp_all add: init s1_def s2_def after_attempt_def init_def update_error_signature_def
        escalation_due_def Let_def)
  have n3: "after_attempt ?E s2 = s3"
    "escalation_due (update_error_signature ?E (s2\<lparr>attempt_count := attempt_count s2 + 1\<rparr>))"
    using ne by (simp_all add: init s2_def s3_def after_attempt_def init_def update_error_signature_def
        escalation_due_def Let_def)
  have f: "files_to_debug self0 = [f]" "files_to_debug s1 = [f]" "files_to_debug s2 = [f]"
    by (simp_all add: init s1_def s2_def init_def)
  have c: "attempt_count self0 < max_attempts self0" "attempt_count s1 < max_attempts s1"
    "attempt_count s2 < max_attempts s2" "\<not> (True \<and> attempt_count s3 < max_attempts s3)"
    "attempt_count self0 = 0" "attempt_count s1 = 1" "attempt_count s2 = 2"
    "internet_search_threshold s2 = 2" "attempt_count s3 = 3" "max_attempts s3 = 3"
    by (simp_all add: init s1_def s2_def s3_def init_def)
  have ok0: "\<not> isl (fst (debug_loop e True self0 w0))"
  proof (cases "debug_loop e True self0 w0")
    case (fields r s w)
    with ok show ?thesis by (cases r) (simp_all add: debug_def)
  qed
  from stuck_loop_step [OF fail tb f(1) c(1) ok0] n1 c(5)
  obtain w1 where l1: "debug_loop e True self0 w0 = debug_loop e True s1 w1"
    and m1: "milestones w1 = milestones w0 @ [Attempt 1]"
    by auto
  from ok0 l1 have ok1: "\<not> isl (fst (debug_loop e True s1 w1))" by simp
  from stuck_loop_step [OF fail tb f(2) c(2) ok1] n2 c(6)
  obtain w2 where l2: "debug_loop e True s1 w1 = debug_loop e True s2 w2"
    and m2: "milestones w2 = milestones w1 @ [Attempt 2]"
    by auto
  from ok1 l2 have ok2: "\<not> isl (fst (debug_loop e True s2 w2))" by simp
  from stuck_loop_step [OF fail tb f(3) c(3) ok2] n3 c(7,8)
  obtain w3 where l3: "debug_loop e True s2 w2 = debug_loop e True s3 w3"
    and m3: "milestones w3 = milestones w2 @ [Attempt 3, SameErrorDetected 2]"
    by auto
  from l1 l2 l3 debug_loop_exit [OF c(4), of e w3]
  have "debug_loop e True self0 w0 = (Inr (), s3, w3)" by simp
  then have "debug e self0 w0 = (Inr (), s3, logging MaximumAttemptReached w3)"
    using c(9,10) by (simp add: debug_def)
  with m1 m2 m3 c(9) show ?thesis
    by (simp add: milestones_logging)
qed

theorem stuck_file_escalates_on_third_attempt_witness:
  "has_traceback (strip ''Traceback: boom'') \<and>
   \<not> isl (fst (debug stuck_env (init [] 3 (Some [''a.py'']) True 5 2) (start (project [(''a.py'', ''x = 1/0'')])))) \<and>
   milestones (snd (snd (debug stuck_env (init [] 3 (Some [''a.py'']) True 5 2)
        (start (project [(''a.py'', ''x = 1/0'')])))))
     = milestones (start (project [(''a.py'', ''x = 1/0'')]))
       @ [Attempt 1, Attempt 2, Attempt 3, SameErrorDetected 2, MaximumAttemptReached] \<and>
   attempt_count (fst (snd (debug stuck_env (init [] 3 (Some [''a.py'']) True 5 2)
        (start (project [(''a.py'', ''x = 1/0'')]))))) = 3"
proof -
  have h1: "\<forall>t fs. subprocess_run stuck_env t fs ''a.py'' = CalledProcessError ''Traceback: boom''"
    by (simp add: stuck_env_def)
  have h2: "has_traceback (strip ''Traceback: boom'')"
    by code_simp
  have h3: "\<not> isl (fst (debug stuck_env (init [] 3 (Some [''a.py'']) True 5 2)
      (start (project [(''a.py'', ''x = 1/0'')]))))"
    by code_simp
  from stuck_file_escalates_on_third_attempt [OF h1 h2 refl h3] h2 h3 show ?thesis
    by blast
qed

subsection \<open>Terminal outcomes\<close>

text \<open>
  Claim C1 on the code: a session with \<open>max_attempts = 1\<close> whose only attempt repairs the
  file logs \<^verbatim>\<open>All errors fixed.\<close> and then
  \<^verbatim>\<open>Maximum attempt reached without fixing all errors.\<close>: the closing test of \<^verbatim>\<open>debug\<close> looks
  at the counter alone.
\<close>

theorem fixed_on_last_attempt_reports_both:
  "milestones (snd (snd (debug fixing_env (init [] 1 (Some [''a.py'']) True 5 5)
      (start (project [(''a.py'', ''x = 1/0'')])))))
     = [Attempt 1, AllErrorsFixed, MaximumAttemptReached]"
  by code_simp

end
